theory Spec2Isabelle
  imports Complex_Main
begin

section \<open>Perception layer of sentinel-map: a shallow embedding\<close>

text \<open>
  The embedded code is \<^verbatim>\<open>modules/perception/detect_and_extract.py\<close> (class
  \<^verbatim>\<open>PerceptionPipeline\<close>) and the stand-alone function
  \<^verbatim>\<open>extract_gps_from_frame_ocr\<close> of \<^verbatim>\<open>modules/perception/test_gps_ocr.py\<close>.

  Conventions. Python \<^verbatim>\<open>int\<close> is \<^typ>\<open>int\<close> (\<^verbatim>\<open>//\<close> is \<open>div\<close>, both round
  towards minus infinity). Python \<^verbatim>\<open>float\<close> is idealised as \<^typ>\<open>real\<close>: rounding,
  overflow and the sign of zero are not modelled. Text is ASCII (\<^typ>\<open>string\<close>).
  Exceptions are values of \<open>error\<close>, all of them subclasses of \<^verbatim>\<open>Exception\<close>
  (\<^verbatim>\<open>cv2.error\<close> is \<open>CvError\<close>; \<open>RuntimeError\<close> stands for whatever else the OCR engine
  or the detector raises). The pixel content of an image is never inspected
  by the embedded code, only by OpenCV, the OCR engine and the detector, so frames are
  an abstract type \<open>'f\<close> and those libraries are capabilities handed in as functions.
\<close>

datatype error =
    ImportError | ValueError | AttributeError | ZeroDivisionError | OSError | CvError | RuntimeError

subsection \<open>\<^verbatim>\<open>extract_roi_patch\<close>\<close>

type_synonym bbox = "int \<times> int \<times> int \<times> int"

text \<open>\<^verbatim>\<open>center_x = (x1 + x2) // 2; center_y = (y1 + y2) // 2\<close>\<close>

definition center :: "bbox \<Rightarrow> int \<times> int" where
  "center bbox = (case bbox of (x1, y1, x2, y2) \<Rightarrow> ((x1 + x2) div 2, (y1 + y2) div 2))"

text \<open>\<^verbatim>\<open>half_size = max(x2 - x1, y2 - y1) // 2\<close>\<close>

definition half_size :: "bbox \<Rightarrow> int" where
  "half_size bbox = (case bbox of (x1, y1, x2, y2) \<Rightarrow> max (x2 - x1) (y2 - y1) div 2)"

text \<open>
  The four crop coordinates \<^verbatim>\<open>(crop_x1, crop_y1, crop_x2, crop_y2)\<close> for a frame of
  shape \<open>(h, w)\<close>.
\<close>

definition crop_window :: "nat \<times> nat \<Rightarrow> bbox \<Rightarrow> int \<times> int \<times> int \<times> int" where
  "crop_window shape bbox =
     (case shape of (h, w) \<Rightarrow>
      case center bbox of (center_x, center_y) \<Rightarrow>
        (max 0 (center_x - half_size bbox),
         max 0 (center_y - half_size bbox),
         min (int w) (center_x + half_size bbox),
         min (int h) (center_y + half_size bbox)))"

text \<open>
  A numpy basic slice \<^verbatim>\<open>a[start:stop]\<close> on an axis of length \<open>n\<close>: a negative bound
  counts from the end, both bounds are clamped to \<open>[0, n]\<close>, and the slice is empty
  when the bounds cross. The result is the half-open range of indices kept.
\<close>

definition slice_index :: "nat \<Rightarrow> int \<Rightarrow> int" where
  "slice_index n i = (if i < 0 then max 0 (i + int n) else min i (int n))"

definition np_slice :: "nat \<Rightarrow> int \<Rightarrow> int \<Rightarrow> nat \<times> nat" where
  "np_slice n start stop =
     (let lo = slice_index n start; hi = slice_index n stop
      in (nat lo, nat (max lo hi)))"

text \<open>
  A patch is described by where it comes from: the frame, the rows and columns kept by
  \<^verbatim>\<open>frame[crop_y1:crop_y2, crop_x1:crop_x2]\<close>, and the size it was resized to.
\<close>

record 'f roi_patch =
  source :: 'f
  rows :: "nat \<times> nat"
  cols :: "nat \<times> nat"
  out_height :: int
  out_width :: int

text \<open>
  \<^verbatim>\<open>cv2.resize(patch, (patch_size, patch_size))\<close> raises \<^verbatim>\<open>cv2.error\<close> on an image with
  no rows or no columns and on a destination size that is not positive; otherwise the
  result has exactly the destination size (the source is stretched, never padded).
\<close>

definition cv2_resize :: "'f \<Rightarrow> nat \<times> nat \<Rightarrow> nat \<times> nat \<Rightarrow> int \<times> int \<Rightarrow> error + 'f roi_patch" where
  "cv2_resize frame rs cs dsize =
     (if fst rs = snd rs \<or> fst cs = snd cs \<or> fst dsize \<le> 0 \<or> snd dsize \<le> 0
      then Inl CvError
      else Inr \<lparr>source = frame, rows = rs, cols = cs,
                out_height = snd dsize, out_width = fst dsize\<rparr>)"

definition extract_roi_patch :: "('f \<Rightarrow> nat \<times> nat) \<Rightarrow> 'f \<Rightarrow> bbox \<Rightarrow> int \<Rightarrow> error + 'f roi_patch" where
  "extract_roi_patch shape frame bbox patch_size =
     (case shape frame of (h, w) \<Rightarrow>
      case crop_window (h, w) bbox of (crop_x1, crop_y1, crop_x2, crop_y2) \<Rightarrow>
        cv2_resize frame (np_slice h crop_y1 crop_y2) (np_slice w crop_x1 crop_x2)
          (patch_size, patch_size))"

subsection \<open>Characters, \<^verbatim>\<open>re\<close> and \<^verbatim>\<open>float\<close>\<close>

text \<open>\<^verbatim>\<open>\d\<close> and \<^verbatim>\<open>str.isdigit\<close>, \<^verbatim>\<open>\s\<close>, and \<^verbatim>\<open>str.upper\<close> on ASCII characters.\<close>

definition isdigit :: "char \<Rightarrow> bool" where
  "isdigit c = (c \<in> set ''0123456789'')"

definition isspace :: "char \<Rightarrow> bool" where
  "isspace c = (c \<in> set [CHR 0x09, CHR 0x0A, CHR 0x0B, CHR 0x0C, CHR 0x0D,
                          CHR 0x1C, CHR 0x1D, CHR 0x1E, CHR 0x1F, CHR 0x20])"

definition upper :: "char \<Rightarrow> char" where
  "upper c =
     (case map_of (zip ''abcdefghijklmnopqrstuvwxyz'' ''ABCDEFGHIJKLMNOPQRSTUVWXYZ'') c of
        Some u \<Rightarrow> u | None \<Rightarrow> c)"

text \<open>
  The fragment of regular expressions the source uses. Every pattern of the source is
  searched with \<^verbatim>\<open>re.IGNORECASE\<close>, so a literal matches both cases. A bracket
  expression (or a single character, \<^verbatim>\<open>\d\<close>, \<^verbatim>\<open>\s\<close>) is a list of atoms; the
  quantifiers \<^verbatim>\<open>*\<close> and \<^verbatim>\<open>+\<close> are only ever applied to those.
\<close>

datatype atom = Lit char | Digit | Space

fun atom_match :: "atom \<Rightarrow> char \<Rightarrow> bool" where
  "atom_match (Lit a) c = (upper c = upper a)"
| "atom_match Digit c = isdigit c"
| "atom_match Space c = isspace c"

definition class_match :: "atom list \<Rightarrow> char \<Rightarrow> bool" where
  "class_match as c = list_ex (\<lambda>a. atom_match a c) as"

datatype regex =
    One "atom list"
  | Many "atom list"
  | Many1 "atom list"
  | Opt regex
  | Seq regex regex
  | Group regex

text \<open>
  Backtracking as a list of successes, in the order the engine tries them: a greedy
  quantifier offers the longest run first, an optional part is tried before it is
  skipped, and in a sequence the alternatives of the right part are exhausted before
  the left part backtracks. A success is the text consumed, what group 1 captured, and
  the rest of the input.
\<close>

fun greedy :: "atom list \<Rightarrow> string \<Rightarrow> (string \<times> string) list" where
  "greedy as [] = [([], [])]"
| "greedy as (c # cs) =
     (if class_match as c
      then map (\<lambda>(p, r). (c # p, r)) (greedy as cs) @ [([], c # cs)]
      else [([], c # cs)])"

fun matches :: "regex \<Rightarrow> string \<Rightarrow> (string \<times> string option \<times> string) list" where
  "matches (One as) s =
     (case s of [] \<Rightarrow> [] | c # cs \<Rightarrow> if class_match as c then [([c], None, cs)] else [])"
| "matches (Many as) s = map (\<lambda>(p, r). (p, None, r)) (greedy as s)"
| "matches (Many1 as) s =
     map (\<lambda>(p, r). (p, None, r)) (filter (\<lambda>(p, r). p \<noteq> []) (greedy as s))"
| "matches (Opt a) s = matches a s @ [([], None, s)]"
| "matches (Seq a b) s =
     concat (map (\<lambda>(p1, g1, r1).
        map (\<lambda>(p2, g2, r2). (p1 @ p2, (case g2 of None \<Rightarrow> g1 | Some g \<Rightarrow> Some g), r2))
          (matches b r1)) (matches a s))"
| "matches (Group a) s = map (\<lambda>(p, g, r). (p, Some p, r)) (matches a s)"

text \<open>
  \<^verbatim>\<open>re.search\<close>: the first success at the leftmost position that has one. The result
  is \<^verbatim>\<open>(match.group(0), match.group(1))\<close>.
\<close>

fun re_search :: "regex \<Rightarrow> string \<Rightarrow> (string \<times> string option) option" where
  "re_search rx [] = (case matches rx [] of [] \<Rightarrow> None | (p, g, r) # _ \<Rightarrow> Some (p, g))"
| "re_search rx (c # cs) =
     (case matches rx (c # cs) of [] \<Rightarrow> re_search rx cs | (p, g, r) # _ \<Rightarrow> Some (p, g))"

fun cat :: "regex list \<Rightarrow> regex" where
  "cat [] = Many []"
| "cat [r] = r"
| "cat (r # rs) = Seq r (cat rs)"

definition lit :: "string \<Rightarrow> regex" where
  "lit s = cat (map (\<lambda>c. One [Lit c]) s)"

text \<open>\<^verbatim>\<open>[NS]\s*(\d+\.?\s*\d+)\<close>\<close>

definition lat_pattern :: regex where
  "lat_pattern = cat [One [Lit CHR ''N'', Lit CHR ''S''], Many [Space],
     Group (cat [Many1 [Digit], Opt (One [Lit CHR ''.'']), Many [Space], Many1 [Digit]])]"

text \<open>\<^verbatim>\<open>[EW]\s*(\d+\.?\s*\d+)\<close>\<close>

definition lon_pattern :: regex where
  "lon_pattern = cat [One [Lit CHR ''E'', Lit CHR ''W''], Many [Space],
     Group (cat [Many1 [Digit], Opt (One [Lit CHR ''.'']), Many [Space], Many1 [Digit]])]"

text \<open>\<^verbatim>\<open>(\d+)\s*KM/H\<close>\<close>

definition speed_pattern :: regex where
  "speed_pattern = cat [Group (Many1 [Digit]), Many [Space], lit ''KM/H'']"

text \<open>\<^verbatim>\<open>lat[:\s]+(-?\d+\.?\d*)\<close> and \<^verbatim>\<open>lon[:\s]+(-?\d+\.?\d*)\<close>\<close>

definition lat_label_pattern :: regex where
  "lat_label_pattern = cat [lit ''lat'', Many1 [Lit CHR '':'', Space],
     Group (cat [Opt (One [Lit CHR ''-'']), Many1 [Digit], Opt (One [Lit CHR ''.'']), Many [Digit]])]"

definition lon_label_pattern :: regex where
  "lon_label_pattern = cat [lit ''lon'', Many1 [Lit CHR '':'', Space],
     Group (cat [Opt (One [Lit CHR ''-'']), Many1 [Digit], Opt (One [Lit CHR ''.'']), Many [Digit]])]"

text \<open>\<^verbatim>\<open>h(?:ea)?d(?:ing)?[:\s]+(\d+\.?\d*)\<close>\<close>

definition heading_label_pattern :: regex where
  "heading_label_pattern = cat [lit ''h'', Opt (lit ''ea''), lit ''d'', Opt (lit ''ing''),
     Many1 [Lit CHR '':'', Space],
     Group (cat [Many1 [Digit], Opt (One [Lit CHR ''.'']), Many [Digit]])]"

text \<open>
  \<^verbatim>\<open>float(s)\<close> on a decimal literal: surrounding whitespace is dropped, then an optional
  sign, digits, and an optional point with digits, at least one digit in all; anything
  else raises \<^verbatim>\<open>ValueError\<close>. (Python also reads exponents, \<^verbatim>\<open>inf\<close>, \<^verbatim>\<open>nan\<close> and
  underscores; the groups of the patterns above hold no letter and no underscore.)
\<close>

definition digit_value :: "char \<Rightarrow> nat" where
  "digit_value c = length (takeWhile (\<lambda>d. d \<noteq> c) ''0123456789'')"

definition nat_of_digits :: "string \<Rightarrow> nat" where
  "nat_of_digits s = foldl (\<lambda>n c. 10 * n + digit_value c) 0 s"

definition strip :: "string \<Rightarrow> string" where
  "strip s = rev (dropWhile isspace (rev (dropWhile isspace s)))"

definition py_float :: "string \<Rightarrow> error + real" where
  "py_float s =
     (let t = strip s;
          neg = (case t of [] \<Rightarrow> False | c # _ \<Rightarrow> c = CHR ''-'');
          body = (case t of [] \<Rightarrow> [] | c # r \<Rightarrow> if c = CHR ''-'' \<or> c = CHR ''+'' then r else t);
          ip = takeWhile isdigit body;
          rest = dropWhile isdigit body;
          fp = (case rest of [] \<Rightarrow> [] | _ # r \<Rightarrow> r);
          wellformed = ((case rest of [] \<Rightarrow> True | c # r \<Rightarrow> c = CHR ''.'' \<and> list_all isdigit r)
                        \<and> (ip \<noteq> [] \<or> fp \<noteq> []));
          magnitude = real (nat_of_digits ip) + real (nat_of_digits fp) / 10 ^ length fp
      in if wellformed then Inr (if neg then - magnitude else magnitude) else Inl ValueError)"

text \<open>\<^verbatim>\<open>x % y\<close> on floats, for \<open>y > 0\<close>.\<close>

definition float_mod :: "real \<Rightarrow> real \<Rightarrow> real" where
  "float_mod x y = x - y * of_int \<lfloor>x / y\<rfloor>"

subsection \<open>The GeoFix decoder: \<^verbatim>\<open>extract_gps_from_frame\<close>\<close>

text \<open>
  What the environment provides. \<open>recognise frame b\<close> is the text
  \<^verbatim>\<open>pytesseract.image_to_string\<close> returns for the overlay region of the frame
  (bottom 15 percent, left 35 percent), converted to grey and binarised by method \<open>b\<close>;
  it is \<open>Inl\<close> when cropping, conversion, thresholding or recognition raises.
\<close>

datatype binarization = Plain | Inverted | Adaptive

record 'f ocr =
  pytesseract_installed :: bool
  recognise :: "'f \<Rightarrow> binarization \<Rightarrow> error + string"

type_synonym gps = "real \<times> real \<times> real"

text \<open>\<^verbatim>\<open>s.replace(' ', '').replace('\n', '')\<close>\<close>

definition remove_spaces :: "string \<Rightarrow> string" where
  "remove_spaces s = filter (\<lambda>c. c \<noteq> CHR 0x0A) (filter (\<lambda>c. c \<noteq> CHR 0x20) s)"

definition parse_lat :: "string \<Rightarrow> error + real option" where
  "parse_lat text =
     (case re_search lat_pattern text of
        None \<Rightarrow> Inr None
      | Some (g0, None) \<Rightarrow> Inl AttributeError
      | Some (g0, Some g1) \<Rightarrow>
          (case py_float (remove_spaces g1) of
             Inl e \<Rightarrow> Inl e
           | Inr lat \<Rightarrow> Inr (Some (if CHR ''S'' \<in> set (map upper g0) then - \<bar>lat\<bar> else lat))))"

definition parse_lon :: "string \<Rightarrow> error + real option" where
  "parse_lon text =
     (case re_search lon_pattern text of
        None \<Rightarrow> Inr None
      | Some (g0, None) \<Rightarrow> Inl AttributeError
      | Some (g0, Some g1) \<Rightarrow>
          (case py_float (remove_spaces g1) of
             Inl e \<Rightarrow> Inl e
           | Inr lon \<Rightarrow> Inr (Some (if CHR ''W'' \<in> set (map upper g0) then - \<bar>lon\<bar> else lon))))"

definition parse_speed :: "string \<Rightarrow> error + real option" where
  "parse_speed text =
     (case re_search speed_pattern text of
        None \<Rightarrow> Inr None
      | Some (g0, None) \<Rightarrow> Inl AttributeError
      | Some (g0, Some g1) \<Rightarrow>
          (case py_float g1 of Inl e \<Rightarrow> Inl e | Inr heading \<Rightarrow> Inr (Some heading)))"

text \<open>
  The statements after the OCR call inside the \<^verbatim>\<open>try\<close>: \<open>Inr (Some fix)\<close> is the
  \<^verbatim>\<open>return\<close> inside the block, \<open>Inr None\<close> is falling out of it, \<open>Inl\<close> an exception.
\<close>

definition parse_overlay :: "string \<Rightarrow> error + gps option" where
  "parse_overlay text =
     (case parse_lat text of Inl e \<Rightarrow> Inl e | Inr lat \<Rightarrow>
      case parse_lon text of Inl e \<Rightarrow> Inl e | Inr lon \<Rightarrow>
      case parse_speed text of Inl e \<Rightarrow> Inl e | Inr heading \<Rightarrow>
        (case (lat, lon) of
           (Some la, Some lo) \<Rightarrow> Inr (Some (la, lo, case heading of Some v \<Rightarrow> v | None \<Rightarrow> 0))
         | _ \<Rightarrow> Inr None))"

text \<open>The body of the \<^verbatim>\<open>try\<close>: import, one plain threshold, one OCR call, parse.\<close>

definition try_ocr :: "'f ocr \<Rightarrow> 'f \<Rightarrow> error + gps option" where
  "try_ocr env frame =
     (if \<not> pytesseract_installed env then Inl ImportError
      else case recognise env frame Plain of
             Inl e \<Rightarrow> Inl e
           | Inr text \<Rightarrow> parse_overlay text)"

text \<open>The simulated drift after the \<^verbatim>\<open>try\<close>.\<close>

definition simulated_gps :: "int \<Rightarrow> gps" where
  "simulated_gps frame_number =
     (43.7900 + (real_of_int frame_number / 10000) * 0.0001,
      - 79.3140 + (real_of_int frame_number / 10000) * 0.0001,
      float_mod (45.0 + (real_of_int frame_number / 100) * 2.5) 360)"

text \<open>
  \<^verbatim>\<open>except (ImportError, Exception): pass\<close> catches every \<open>error\<close>; the result is \<open>Inl\<close>
  if the call raises.
\<close>

definition extract_gps_from_frame :: "'f ocr \<Rightarrow> 'f \<Rightarrow> int \<Rightarrow> error + gps" where
  "extract_gps_from_frame env frame frame_number =
     (case try_ocr env frame of
        Inr (Some fix) \<Rightarrow> Inr fix
      | Inr None \<Rightarrow> Inr (simulated_gps frame_number)
      | Inl e \<Rightarrow> Inr (simulated_gps frame_number))"

subsection \<open>\<^verbatim>\<open>extract_gps_from_frame_ocr\<close> (\<^verbatim>\<open>test_gps_ocr.py\<close>)\<close>

definition count_digits :: "string \<Rightarrow> nat" where
  "count_digits s = length (filter isdigit s)"

text \<open>\<^verbatim>\<open>max(xs, key=key)\<close> keeps the first of the greatest elements.\<close>

fun max_by :: "('a \<Rightarrow> nat) \<Rightarrow> 'a \<Rightarrow> 'a list \<Rightarrow> 'a" where
  "max_by key best [] = best"
| "max_by key best (x # xs) = max_by key (if key best < key x then x else best) xs"

definition py_max :: "('a \<Rightarrow> nat) \<Rightarrow> 'a list \<Rightarrow> error + 'a" where
  "py_max key xs = (case xs of [] \<Rightarrow> Inl ValueError | x # rest \<Rightarrow> Inr (max_by key x rest))"

text \<open>
  The three loops over pattern lists. A coordinate whose number does not convert moves
  on to the next pattern (\<^verbatim>\<open>except ValueError: continue\<close>); the heading conversion is
  not guarded.
\<close>

fun find_coordinate :: "char \<Rightarrow> regex list \<Rightarrow> string \<Rightarrow> error + real option" where
  "find_coordinate negative [] text = Inr None"
| "find_coordinate negative (pattern # patterns) text =
     (case re_search pattern text of
        None \<Rightarrow> find_coordinate negative patterns text
      | Some (g0, None) \<Rightarrow> Inl AttributeError
      | Some (g0, Some g1) \<Rightarrow>
          (case py_float (remove_spaces g1) of
             Inl ValueError \<Rightarrow> find_coordinate negative patterns text
           | Inl e \<Rightarrow> Inl e
           | Inr v \<Rightarrow> Inr (Some (if negative \<in> set (map upper g0) then - \<bar>v\<bar> else v))))"

fun find_heading :: "regex list \<Rightarrow> string \<Rightarrow> error + real option" where
  "find_heading [] text = Inr None"
| "find_heading (pattern # patterns) text =
     (case re_search pattern text of
        None \<Rightarrow> find_heading patterns text
      | Some (g0, None) \<Rightarrow> Inl AttributeError
      | Some (g0, Some g1) \<Rightarrow>
          (case py_float g1 of Inl e \<Rightarrow> Inl e | Inr v \<Rightarrow> Inr (Some v)))"

definition parse_best_text :: "string \<Rightarrow> error + real option \<times> real option \<times> real option" where
  "parse_best_text text =
     (case find_coordinate CHR ''S'' [lat_pattern, lat_label_pattern] text of Inl e \<Rightarrow> Inl e | Inr lat \<Rightarrow>
      case find_coordinate CHR ''W'' [lon_pattern, lon_label_pattern] text of Inl e \<Rightarrow> Inl e | Inr lon \<Rightarrow>
      case find_heading [speed_pattern, heading_label_pattern] text of Inl e \<Rightarrow> Inl e | Inr heading \<Rightarrow>
        Inr (lat, lon, heading))"

definition extract_gps_from_frame_ocr ::
    "'f ocr \<Rightarrow> 'f \<Rightarrow> error + real option \<times> real option \<times> real option" where
  "extract_gps_from_frame_ocr env frame =
     (if \<not> pytesseract_installed env then Inr (None, None, None)
      else case recognise env frame Plain of Inl e \<Rightarrow> Inl e | Inr text1 \<Rightarrow>
           case recognise env frame Inverted of Inl e \<Rightarrow> Inl e | Inr text2 \<Rightarrow>
           case recognise env frame Adaptive of Inl e \<Rightarrow> Inl e | Inr text3 \<Rightarrow>
           case py_max (\<lambda>x. count_digits (snd x))
                  [(1 :: nat, text1), (2, text2), (3, text3)] of
             Inl e \<Rightarrow> Inl e
           | Inr best \<Rightarrow> parse_best_text (snd best))"

subsection \<open>\<^verbatim>\<open>PerceptionPipeline.process_video\<close>\<close>

text \<open>
  The attributes of \<^verbatim>\<open>self\<close> that \<^verbatim>\<open>__init__\<close> sets and \<^verbatim>\<open>process_video\<close> reads or
  writes (the model handle, device and confidence threshold only parametrise the
  detector, which is a capability below).
\<close>

record pipeline =
  target_classes :: "string list"
  self_total_frames :: nat
  self_total_detections :: nat
  inference_times :: "real list"

text \<open>\<^verbatim>\<open>__init__\<close> with \<^verbatim>\<open>target_classes or ["stop sign", "traffic light"]\<close>.\<close>

definition init :: "string list option \<Rightarrow> pipeline" where
  "init classes =
     \<lparr>target_classes =
        (case classes of
           None \<Rightarrow> [''stop sign'', ''traffic light'']
         | Some cs \<Rightarrow> if cs = [] then [''stop sign'', ''traffic light''] else cs),
      self_total_frames = 0, self_total_detections = 0, inference_times = []\<rparr>"

text \<open>
  One box of a detector result, after \<^verbatim>\<open>map(int, box.xyxy[0])\<close>, \<^verbatim>\<open>float(box.conf[0])\<close>
  and \<^verbatim>\<open>result.names[class_id]\<close>.
\<close>

record raw_box =
  box_xyxy :: bbox
  box_conf :: real
  box_class_name :: string

text \<open>What \<^verbatim>\<open>cv2.VideoCapture\<close> gives: whether it opened, its frame rate, its frames.\<close>

record 'f video =
  opened :: bool
  native_fps :: real
  frames :: "'f list"

text \<open>
  A row of the CSV file, before its fields are formatted (\<^verbatim>\<open>.3f\<close>, \<^verbatim>\<open>.2f\<close>, ...).
\<close>

record detection_row =
  row_frame_number :: nat
  row_timestamp_sec :: real
  row_u :: real
  row_v :: real
  row_confidence :: real
  row_class_name :: string
  row_vehicle_lat :: real
  row_vehicle_lon :: real
  row_heading :: real

datatype csv_line = Header | Detection detection_row

text \<open>
  The environment of a run. The detector is \<^verbatim>\<open>self.model(frame, ...)\<close> with its boxes,
  result by result; \<open>inference_seconds\<close> is the wall-clock time measured around it and
  \<open>elapsed_seconds\<close> the one measured around the loop. \<open>writerow\<close> tells whether writing
  a row to the file holding the given lines raises; \<open>imwrite\<close> is \<^verbatim>\<open>cv2.imwrite\<close>, which
  raises, or returns whether the file was written.
\<close>

record 'f env =
  env_ocr :: "'f ocr"
  frame_shape :: "'f \<Rightarrow> nat \<times> nat"
  detect :: "'f \<Rightarrow> error + raw_box list list"
  inference_seconds :: "'f \<Rightarrow> real"
  elapsed_seconds :: real
  makedirs :: "string \<Rightarrow> error option"
  open_csv :: "string \<Rightarrow> error option"
  writerow :: "csv_line list \<Rightarrow> csv_line \<Rightarrow> error option"
  imwrite :: "string \<Rightarrow> 'f roi_patch \<Rightarrow> error + bool"

text \<open>
  The state of a run: \<^verbatim>\<open>self\<close>, the three local counters, the lines of the CSV file and
  the calls made to \<^verbatim>\<open>cv2.imwrite\<close> (path, patch, whether the file was written).
\<close>

record 'f run =
  self :: pipeline
  frame_count :: nat
  processed_count :: nat
  detection_count :: nat
  csv_file :: "csv_line list"
  imwrite_calls :: "(string \<times> 'f roi_patch \<times> bool) list"

type_synonym 'f outcome = "(error \<times> 'f run) + 'f run"

text \<open>\<^verbatim>\<open>int(x)\<close> on a float: towards zero.\<close>

definition py_int :: "real \<Rightarrow> int" where
  "py_int x = (if 0 \<le> x then \<lfloor>x\<rfloor> else \<lceil>x\<rceil>)"

text \<open>\<^verbatim>\<open>str(n)\<close> and the format specs \<^verbatim>\<open>06d\<close>, \<^verbatim>\<open>04d\<close> for a natural number.\<close>

definition digit_char :: "nat \<Rightarrow> char" where
  "digit_char d = ''0123456789'' ! d"

fun decimal :: "nat \<Rightarrow> string" where
  "decimal n = (if n < 10 then [digit_char n] else decimal (n div 10) @ [digit_char (n mod 10)])"

declare decimal.simps [simp del]

definition zero_pad :: "nat \<Rightarrow> string \<Rightarrow> string" where
  "zero_pad width s = replicate (width - length s) CHR ''0'' @ s"

text \<open>\<^verbatim>\<open>f"frame_{frame_count:06d}_det_{detection_count:04d}.jpg"\<close>\<close>

definition patch_filename :: "nat \<Rightarrow> nat \<Rightarrow> string" where
  "patch_filename frame_no ordinal =
     ''frame_'' @ zero_pad 6 (decimal frame_no) @ ''_det_'' @ zero_pad 4 (decimal ordinal) @ ''.jpg''"

text \<open>\<^verbatim>\<open>os.path.join(directory, name)\<close> for a relative \<open>name\<close>.\<close>

definition os_path_join :: "string \<Rightarrow> string \<Rightarrow> string" where
  "os_path_join directory name =
     (if directory = [] then name
      else if last directory = CHR ''/'' then directory @ name
      else directory @ ''/'' @ name)"

text \<open>\<^verbatim>\<open>np.mean\<close> of a non-empty list.\<close>

definition mean :: "real list \<Rightarrow> real" where
  "mean xs = sum_list xs / real (length xs)"

text \<open>
  The body of \<^verbatim>\<open>for box in boxes\<close>: class filter, patch, \<^verbatim>\<open>cv2.imwrite\<close> (its result is
  not looked at), timestamp, CSV row, \<^verbatim>\<open>detection_count += 1\<close>.
\<close>

definition process_box ::
    "'f env \<Rightarrow> string \<Rightarrow> int \<Rightarrow> 'f \<Rightarrow> gps \<Rightarrow> raw_box \<Rightarrow> 'f run \<Rightarrow> 'f outcome" where
  "process_box env patches_dir video_fps frame fix box st =
     (case box_xyxy box of (x1, y1, x2, y2) \<Rightarrow>
      if box_class_name box \<notin> set (target_classes (self st)) then Inr st
      else
        case extract_roi_patch (frame_shape env) frame (x1, y1, x2, y2) 256 of
          Inl e \<Rightarrow> Inl (e, st)
        | Inr patch \<Rightarrow>
            (let patch_path = os_path_join patches_dir
                   (patch_filename (frame_count st) (detection_count st))
             in case imwrite env patch_path patch of
                  Inl e \<Rightarrow> Inl (e, st)
                | Inr written \<Rightarrow>
                    (let st1 = st\<lparr>imwrite_calls := imwrite_calls st @ [(patch_path, patch, written)]\<rparr>
                     in if video_fps = 0 then Inl (ZeroDivisionError, st1)
                        else
                          (let row = Detection
                                 \<lparr>row_frame_number = frame_count st,
                                  row_timestamp_sec = real (frame_count st) / real_of_int video_fps,
                                  row_u = real_of_int (x1 + x2) / 2,
                                  row_v = real_of_int y2,
                                  row_confidence = box_conf box,
                                  row_class_name = box_class_name box,
                                  row_vehicle_lat = fst fix,
                                  row_vehicle_lon = fst (snd fix),
                                  row_heading = snd (snd fix)\<rparr>
                           in case writerow env (csv_file st1) row of
                                Some e \<Rightarrow> Inl (e, st1)
                              | None \<Rightarrow>
                                  Inr (st1\<lparr>csv_file := csv_file st1 @ [row],
                                           detection_count := detection_count st1 + 1\<rparr>)))))"

fun process_boxes ::
    "'f env \<Rightarrow> string \<Rightarrow> int \<Rightarrow> 'f \<Rightarrow> gps \<Rightarrow> raw_box list \<Rightarrow> 'f run \<Rightarrow> 'f outcome" where
  "process_boxes env patches_dir video_fps frame fix [] st = Inr st"
| "process_boxes env patches_dir video_fps frame fix (box # boxes) st =
     (case process_box env patches_dir video_fps frame fix box st of
        Inl x \<Rightarrow> Inl x
      | Inr st' \<Rightarrow> process_boxes env patches_dir video_fps frame fix boxes st')"

fun process_results ::
    "'f env \<Rightarrow> string \<Rightarrow> int \<Rightarrow> 'f \<Rightarrow> gps \<Rightarrow> raw_box list list \<Rightarrow> 'f run \<Rightarrow> 'f outcome" where
  "process_results env patches_dir video_fps frame fix [] st = Inr st"
| "process_results env patches_dir video_fps frame fix (boxes # results) st =
     (case process_boxes env patches_dir video_fps frame fix boxes st of
        Inl x \<Rightarrow> Inl x
      | Inr st' \<Rightarrow> process_results env patches_dir video_fps frame fix results st')"

text \<open>
  What the loop does with a sampled frame, up to the end of the detection loops: GPS,
  inference, \<^verbatim>\<open>self.inference_times.append\<close>, the boxes.
\<close>

definition process_frame :: "'f env \<Rightarrow> string \<Rightarrow> int \<Rightarrow> 'f \<Rightarrow> 'f run \<Rightarrow> 'f outcome" where
  "process_frame env patches_dir video_fps frame st =
     (case extract_gps_from_frame (env_ocr env) frame (int (frame_count st)) of
        Inl e \<Rightarrow> Inl (e, st)
      | Inr fix \<Rightarrow>
          (case detect env frame of
             Inl e \<Rightarrow> Inl (e, st)
           | Inr results \<Rightarrow>
               process_results env patches_dir video_fps frame fix results
                 (st\<lparr>self := (self st)\<lparr>inference_times :=
                          inference_times (self st) @ [inference_seconds env frame]\<rparr>\<rparr>)))"

text \<open>
  \<^verbatim>\<open>while True: ret, frame = cap.read() ...\<close> over the frames the capture still holds.
\<close>

fun read_loop ::
    "'f env \<Rightarrow> string \<Rightarrow> int \<Rightarrow> nat \<Rightarrow> 'f list \<Rightarrow> 'f run \<Rightarrow> 'f outcome" where
  "read_loop env patches_dir video_fps frame_interval [] st = Inr st"
| "read_loop env patches_dir video_fps frame_interval (frame # rest) st =
     (if frame_count st mod frame_interval \<noteq> 0
      then read_loop env patches_dir video_fps frame_interval rest
             (st\<lparr>frame_count := frame_count st + 1\<rparr>)
      else
        case process_frame env patches_dir video_fps frame st of
          Inl x \<Rightarrow> Inl x
        | Inr st' \<Rightarrow>
            read_loop env patches_dir video_fps frame_interval rest
              (st'\<lparr>processed_count := processed_count st' + 1,
                   frame_count := frame_count st' + 1\<rparr>))"

text \<open>The dictionary \<^verbatim>\<open>stats\<close>.\<close>

record report =
  report_total_frames :: nat
  report_processed_frames :: nat
  report_total_detections :: nat
  report_elapsed_time :: real
  report_avg_fps :: real
  report_avg_inference_ms :: real
  report_output_csv :: string
  report_output_patches_dir :: string

definition make_report :: "'f env \<Rightarrow> string \<Rightarrow> string \<Rightarrow> 'f run \<Rightarrow> report" where
  "make_report env csv_path patches_dir st =
     (let elapsed_time = elapsed_seconds env;
          avg_inference_time =
            (if inference_times (self st) \<noteq> [] then mean (inference_times (self st)) else 0);
          avg_fps = (if elapsed_time > 0 then real (processed_count st) / elapsed_time else 0)
      in \<lparr>report_total_frames = frame_count st,
          report_processed_frames = processed_count st,
          report_total_detections = detection_count st,
          report_elapsed_time = elapsed_time,
          report_avg_fps = avg_fps,
          report_avg_inference_ms = avg_inference_time * 1000,
          report_output_csv = csv_path,
          report_output_patches_dir = patches_dir\<rparr>)"

text \<open>
  The state the loop starts in: \<^verbatim>\<open>self\<close> as the caller hands it over, the counters at
  0, the CSV file opened with mode \<^verbatim>\<open>w\<close> and holding its header.
\<close>

definition start :: "pipeline \<Rightarrow> 'f run" where
  "start pl =
     \<lparr>self = pl, frame_count = 0, processed_count = 0, detection_count = 0,
      csv_file = [Header], imwrite_calls = []\<rparr>"

definition unopened :: "pipeline \<Rightarrow> 'f run" where
  "unopened pl =
     \<lparr>self = pl, frame_count = 0, processed_count = 0, detection_count = 0,
      csv_file = [], imwrite_calls = []\<rparr>"

definition process_video ::
    "'f env \<Rightarrow> pipeline \<Rightarrow> 'f video \<Rightarrow> string \<Rightarrow> string \<Rightarrow> int
       \<Rightarrow> (error \<times> 'f run) + (report \<times> 'f run)" where
  "process_video env pl video csv_path patches_dir sample_fps =
     (if \<not> opened video then Inl (ValueError, unopened pl)
      else
        (let video_fps = py_int (native_fps video)
         in if sample_fps = 0 then Inl (ZeroDivisionError, unopened pl)
            else
              (let frame_interval = max 1 (video_fps div sample_fps)
               in case makedirs env patches_dir of
                    Some e \<Rightarrow> Inl (e, unopened pl)
                  | None \<Rightarrow>
                      (case open_csv env csv_path of
                         Some e \<Rightarrow> Inl (e, unopened pl)
                       | None \<Rightarrow>
                           (case writerow env [] Header of
                              Some e \<Rightarrow> Inl (e, unopened pl)
                            | None \<Rightarrow>
                                (case read_loop env patches_dir video_fps (nat frame_interval)
                                        (frames video) (start pl) of
                                   Inl x \<Rightarrow> Inl x
                                 | Inr st \<Rightarrow> Inr (make_report env csv_path patches_dir st, st)))))))"

subsection \<open>The Frame Sampler as the specification words it\<close>

text \<open>
  For the comparison with \<^verbatim>\<open>process_video\<close>, these three definitions follow the
  specification, not the code: the frame interval
  \<open>max(1, floor(nativeFrameRate / targetFps))\<close>, the sampler that yields exactly the
  frames whose index is a multiple of it, in increasing order, and the orchestrator
  that runs its per-frame work once for each sampled frame.
\<close>

definition spec_frame_interval :: "real \<Rightarrow> int \<Rightarrow> int" where
  "spec_frame_interval nativeFrameRate targetFps =
     max 1 \<lfloor>nativeFrameRate / real_of_int targetFps\<rfloor>"

definition spec_sampled_frames :: "real \<Rightarrow> int \<Rightarrow> 'f list \<Rightarrow> (nat \<times> 'f) list" where
  "spec_sampled_frames nativeFrameRate targetFps fs =
     filter (\<lambda>(i, f). spec_frame_interval nativeFrameRate targetFps dvd int i)
       (zip [0..<length fs] fs)"

fun process_sampled ::
    "'f env \<Rightarrow> string \<Rightarrow> int \<Rightarrow> (nat \<times> 'f) list \<Rightarrow> 'f run \<Rightarrow> 'f outcome" where
  "process_sampled env patches_dir video_fps [] st = Inr st"
| "process_sampled env patches_dir video_fps ((i, frame) # rest) st =
     (case process_frame env patches_dir video_fps frame (st\<lparr>frame_count := i\<rparr>) of
        Inl x \<Rightarrow> Inl x
      | Inr st' \<Rightarrow>
          process_sampled env patches_dir video_fps rest
            (st'\<lparr>processed_count := processed_count st' + 1\<rparr>))"

subsection \<open>A concrete environment\<close>

text \<open>
  For the examples: frames are numbered, every frame is \<open>100 \<times> 100\<close>, OCR is not
  installed, the detector finds a stop sign and a car on frame 0 and nothing on the
  other frames, and no write fails.
\<close>

definition quiet_env :: "nat env" where
  "quiet_env =
     \<lparr>env_ocr = \<lparr>pytesseract_installed = False, recognise = \<lambda>_ _. Inr ''''\<rparr>,
      frame_shape = \<lambda>_. (100, 100),
      detect = \<lambda>f. Inr (if f = 0
                 then [[\<lparr>box_xyxy = (10, 20, 50, 80), box_conf = 0.9, box_class_name = ''stop sign''\<rparr>,
                        \<lparr>box_xyxy = (0, 0, 9, 9), box_conf = 0.8, box_class_name = ''car''\<rparr>]]
                 else [[]]),
      inference_seconds = \<lambda>f. if f = 0 then 1 else if f = 1 then 3 else 5,
      elapsed_seconds = 2,
      makedirs = \<lambda>_. None,
      open_csv = \<lambda>_. None,
      writerow = \<lambda>_ _. None,
      imwrite = \<lambda>_ _. Inr True\<rparr>"

text \<open>The same environment with a full disk: every CSV row after the header fails to write.\<close>

definition full_disk_env :: "nat env" where
  "full_disk_env = quiet_env\<lparr>writerow := \<lambda>ls l. if l = Header then None else Some OSError\<rparr>"

subsection \<open>Auxiliary notions\<close>

text \<open>The characters a coordinate's number can be made of.\<close>

definition number_char :: "char \<Rightarrow> bool" where
  "number_char c = (isdigit c \<or> c = CHR ''.'' \<or> isspace c)"

text \<open>A pattern without a capturing group.\<close>

fun no_group :: "regex \<Rightarrow> bool" where
  "no_group (One as) = True"
| "no_group (Many as) = True"
| "no_group (Many1 as) = True"
| "no_group (Opt a) = no_group a"
| "no_group (Seq a b) = (no_group a \<and> no_group b)"
| "no_group (Group a) = False"

text \<open>The detection rows of a CSV file, and the patch paths that belong to them.\<close>

definition detection_rows :: "csv_line list \<Rightarrow> detection_row list" where
  "detection_rows ls = concat (map (\<lambda>l. case l of Header \<Rightarrow> [] | Detection r \<Rightarrow> [r]) ls)"

definition numbered_paths :: "string \<Rightarrow> nat list \<Rightarrow> string list" where
  "numbered_paths patches_dir frame_numbers =
     map (\<lambda>(ordinal, frame_no). os_path_join patches_dir (patch_filename frame_no ordinal))
       (zip [0..<length frame_numbers] frame_numbers)"

text \<open>
  Between two records every imwrite call belongs to a CSV row: the call for the
  \<open>k\<close>-th row (counting from 0) has the path made of that row's frame number and of
  \<open>k\<close>, and \<^verbatim>\<open>detection_count\<close> is the number of rows. A record is in flight when its
  patch has been handed to imwrite and its row has not been written.
\<close>

definition paired :: "string \<Rightarrow> 'f run \<Rightarrow> bool" where
  "paired patches_dir st =
     (map fst (imwrite_calls st)
        = numbered_paths patches_dir (map row_frame_number (detection_rows (csv_file st)))
      \<and> detection_count st = length (detection_rows (csv_file st)))"

definition in_flight :: "string \<Rightarrow> 'f run \<Rightarrow> bool" where
  "in_flight patches_dir st =
     (map fst (imwrite_calls st)
        = numbered_paths patches_dir (map row_frame_number (detection_rows (csv_file st)))
          @ [os_path_join patches_dir
               (patch_filename (frame_count st) (length (detection_rows (csv_file st))))]
      \<and> detection_count st = length (detection_rows (csv_file st)))"

text \<open>A later state of a run keeps the CSV lines and the imwrite calls of an earlier one.\<close>

definition extends :: "'f run \<Rightarrow> 'f run \<Rightarrow> bool" where
  "extends st st' =
     ((\<exists>ls. csv_file st' = csv_file st @ ls) \<and> (\<exists>cs. imwrite_calls st' = imwrite_calls st @ cs))"

section \<open>Properties\<close>

subsection \<open>ROI geometry\<close>

lemma window_le:
  fixes x1 x2 d n :: int
  assumes "0 \<le> x1" "x1 < x2" "x2 \<le> n" "0 \<le> d"
  shows "max 0 ((x1 + x2) div 2 - d div 2) \<le> min n ((x1 + x2) div 2 + d div 2)"
proof -
  define c where "c = (x1 + x2) div 2"
  define s where "s = d div 2"
  have "0 \<le> c" "c \<le> n" unfolding c_def using assms by linarith+
  moreover have "0 \<le> s" unfolding s_def using assms by linarith
  ultimately show ?thesis unfolding c_def[symmetric] s_def[symmetric] by linarith
qed

lemma window_less:
  fixes x1 x2 d n :: int
  assumes "0 \<le> x1" "x1 < x2" "x2 \<le> n" "2 \<le> d"
  shows "max 0 ((x1 + x2) div 2 - d div 2) < min n ((x1 + x2) div 2 + d div 2)"
proof -
  define c where "c = (x1 + x2) div 2"
  define s where "s = d div 2"
  have "0 \<le> c" "c < n" unfolding c_def using assms by linarith+
  moreover have "1 \<le> s" unfolding s_def using assms by linarith
  ultimately show ?thesis unfolding c_def[symmetric] s_def[symmetric] by linarith
qed

lemma crop_window_eq:
  "crop_window (h, w) (x1, y1, x2, y2) =
     (max 0 ((x1 + x2) div 2 - max (x2 - x1) (y2 - y1) div 2),
      max 0 ((y1 + y2) div 2 - max (x2 - x1) (y2 - y1) div 2),
      min (int w) ((x1 + x2) div 2 + max (x2 - x1) (y2 - y1) div 2),
      min (int h) ((y1 + y2) div 2 + max (x2 - x1) (y2 - y1) div 2))"
  by (simp add: crop_window_def center_def half_size_def)

lemma crop_window_in_frame:
  assumes "0 \<le> x1" "x1 < x2" "x2 \<le> int w" "0 \<le> y1" "y1 < y2" "y2 \<le> int h"
    and cw: "crop_window (h, w) (x1, y1, x2, y2) = (cx1, cy1, cx2, cy2)"
  shows "0 \<le> cx1 \<and> cx1 \<le> cx2 \<and> cx2 \<le> int w \<and> 0 \<le> cy1 \<and> cy1 \<le> cy2 \<and> cy2 \<le> int h"
proof -
  define d where "d = max (x2 - x1) (y2 - y1)"
  have d: "0 \<le> d"
    unfolding d_def using assms by linarith
  have e: "cx1 = max 0 ((x1 + x2) div 2 - d div 2)" "cx2 = min (int w) ((x1 + x2) div 2 + d div 2)"
    "cy1 = max 0 ((y1 + y2) div 2 - d div 2)" "cy2 = min (int h) ((y1 + y2) div 2 + d div 2)"
    using cw unfolding crop_window_eq d_def by simp_all
  have "cx1 \<le> cx2"
    unfolding e by (rule window_le) (use assms d in simp_all)
  moreover have "cy1 \<le> cy2"
    unfolding e by (rule window_le) (use assms d in simp_all)
  moreover have "0 \<le> cx1" "0 \<le> cy1" "cx2 \<le> int w" "cy2 \<le> int h"
    unfolding e by simp_all
  ultimately show ?thesis by simp
qed

lemma np_slice_in_range:
  "0 \<le> a \<Longrightarrow> a \<le> b \<Longrightarrow> b \<le> int n \<Longrightarrow> np_slice n a b = (nat a, nat b)"
  by (simp add: np_slice_def slice_index_def Let_def)

lemma crop_window_nonempty:
  assumes "0 \<le> x1" "x1 < x2" "x2 \<le> int w" "0 \<le> y1" "y1 < y2" "y2 \<le> int h"
    and big: "2 \<le> max (x2 - x1) (y2 - y1)"
    and cw: "crop_window (h, w) (x1, y1, x2, y2) = (cx1, cy1, cx2, cy2)"
  shows "cx1 < cx2 \<and> cy1 < cy2"
proof -
  define d where "d = max (x2 - x1) (y2 - y1)"
  have d: "2 \<le> d"
    unfolding d_def using big .
  have e: "cx1 = max 0 ((x1 + x2) div 2 - d div 2)" "cx2 = min (int w) ((x1 + x2) div 2 + d div 2)"
    "cy1 = max 0 ((y1 + y2) div 2 - d div 2)" "cy2 = min (int h) ((y1 + y2) div 2 + d div 2)"
    using cw unfolding crop_window_eq d_def by simp_all
  have "cx1 < cx2"
    unfolding e by (rule window_less) (use assms d in simp_all)
  moreover have "cy1 < cy2"
    unfolding e by (rule window_less) (use assms d in simp_all)
  ultimately show ?thesis by simp
qed

text \<open>
  C4 (amended). For a frame of shape \<open>(h, w)\<close> and a bbox inside it
  (\<open>0 \<le> x1 < x2 \<le> w\<close>, \<open>0 \<le> y1 < y2 \<le> h\<close>): the centre is
  \<open>((x1+x2) div 2, (y1+y2) div 2)\<close>, the half-size is half (rounded down) of the larger
  of width and height, the crop window is the square around the centre cut off at the
  frame boundaries, so every crop coordinate lies in the frame; and when the larger
  side is at least 2 the crop is resized, not padded, to exactly
  \<open>patch_size \<times> patch_size\<close> (\<open>patch_size \<ge> 1\<close>). For the \<open>100 \<times> 100\<close> frame and the
  bbox \<open>(0, 0, 20, 40)\<close> the half-size is 20, the centre \<open>(10, 20)\<close> and the crop window
  \<open>x \<in> [0, 30]\<close>, \<open>y \<in> [0, 40]\<close>.
\<close>

theorem extract_roi_patch_geometry:
  "(0 \<le> x1 \<and> x1 < x2 \<and> x2 \<le> int w \<and> 0 \<le> y1 \<and> y1 < y2 \<and> y2 \<le> int h \<and> shape frame = (h, w) \<longrightarrow>
      center (x1, y1, x2, y2) = ((x1 + x2) div 2, (y1 + y2) div 2)
    \<and> half_size (x1, y1, x2, y2) = max (x2 - x1) (y2 - y1) div 2
    \<and> (\<exists>cx1 cy1 cx2 cy2.
         crop_window (h, w) (x1, y1, x2, y2) = (cx1, cy1, cx2, cy2)
       \<and> cx1 = max 0 ((x1 + x2) div 2 - half_size (x1, y1, x2, y2))
       \<and> cx2 = min (int w) ((x1 + x2) div 2 + half_size (x1, y1, x2, y2))
       \<and> cy1 = max 0 ((y1 + y2) div 2 - half_size (x1, y1, x2, y2))
       \<and> cy2 = min (int h) ((y1 + y2) div 2 + half_size (x1, y1, x2, y2))
       \<and> 0 \<le> cx1 \<and> cx1 \<le> cx2 \<and> cx2 \<le> int w \<and> 0 \<le> cy1 \<and> cy1 \<le> cy2 \<and> cy2 \<le> int h
       \<and> (2 \<le> max (x2 - x1) (y2 - y1) \<and> 1 \<le> patch_size \<longrightarrow>
            extract_roi_patch shape frame (x1, y1, x2, y2) patch_size =
              Inr \<lparr>source = frame, rows = (nat cy1, nat cy2), cols = (nat cx1, nat cx2),
                   out_height = patch_size, out_width = patch_size\<rparr>)))
  \<and> half_size (0, 0, 20, 40) = 20
  \<and> center (0, 0, 20, 40) = (10, 20)
  \<and> crop_window (100, 100) (0, 0, 20, 40) = (0, 0, 30, 40)"
proof -
  have example: "half_size (0, 0, 20, 40) = 20 \<and> center (0, 0, 20, 40) = (10, 20)
      \<and> crop_window (100, 100) (0, 0, 20, 40) = (0, 0, 30, 40)"
    by (simp add: crop_window_def center_def half_size_def)
  have general: "?thesis" if inside: "0 \<le> x1" "x1 < x2" "x2 \<le> int w" "0 \<le> y1" "y1 < y2" "y2 \<le> int h"
    and sh: "shape frame = (h, w)"
  proof -
    obtain cx1 cy1 cx2 cy2 where cw: "crop_window (h, w) (x1, y1, x2, y2) = (cx1, cy1, cx2, cy2)"
      by (metis prod_cases4)
    have coords: "cx1 = max 0 ((x1 + x2) div 2 - half_size (x1, y1, x2, y2))"
      "cx2 = min (int w) ((x1 + x2) div 2 + half_size (x1, y1, x2, y2))"
      "cy1 = max 0 ((y1 + y2) div 2 - half_size (x1, y1, x2, y2))"
      "cy2 = min (int h) ((y1 + y2) div 2 + half_size (x1, y1, x2, y2))"
      using cw by (simp_all add: crop_window_eq half_size_def)
    have range: "0 \<le> cx1 \<and> cx1 \<le> cx2 \<and> cx2 \<le> int w \<and> 0 \<le> cy1 \<and> cy1 \<le> cy2 \<and> cy2 \<le> int h"
      using crop_window_in_frame [OF inside cw] .
    have resized: "extract_roi_patch shape frame (x1, y1, x2, y2) patch_size =
        Inr \<lparr>source = frame, rows = (nat cy1, nat cy2), cols = (nat cx1, nat cx2),
             out_height = patch_size, out_width = patch_size\<rparr>"
      if big: "2 \<le> max (x2 - x1) (y2 - y1)" and ps: "1 \<le> patch_size"
    proof -
      have ne: "cx1 < cx2 \<and> cy1 < cy2"
        using crop_window_nonempty [OF inside big cw] .
      have sy: "np_slice h cy1 cy2 = (nat cy1, nat cy2)"
        using range by (simp add: np_slice_in_range)
      have sx: "np_slice w cx1 cx2 = (nat cx1, nat cx2)"
        using range by (simp add: np_slice_in_range)
      have "nat cy1 \<noteq> nat cy2" "nat cx1 \<noteq> nat cx2"
        using ne range by linarith+
      then show ?thesis
        using ps by (simp add: extract_roi_patch_def sh cw sy sx cv2_resize_def)
    qed
    have body: "center (x1, y1, x2, y2) = ((x1 + x2) div 2, (y1 + y2) div 2)
      \<and> half_size (x1, y1, x2, y2) = max (x2 - x1) (y2 - y1) div 2"
      by (simp add: center_def half_size_def)
    show ?thesis
      using example body cw coords range resized by blast
  qed
  show ?thesis
    using example general by blast
qed

theorem extract_roi_patch_geometry_witness:
  "extract_roi_patch (\<lambda>_::unit. (100, 100)) () (0, 0, 20, 40) 256 =
     Inr \<lparr>source = (), rows = (0, 40), cols = (0, 30), out_height = 256, out_width = 256\<rparr>"
  using extract_roi_patch_geometry
    [where ?x1.0 = 0 and ?y1.0 = 0 and ?x2.0 = 20 and ?y2.0 = 40 and w = 100 and h = 100
       and shape = "\<lambda>_::unit. (100, 100)" and frame = "()" and patch_size = 256]
  by (simp add: crop_window_eq)

text \<open>
  C4 as stated fails in three places: at the claim's own example the crop window is
  \<open>x \<in> [0, 30]\<close>, not \<open>[0, 40]\<close> (the window is cut off, not shifted); a \<open>1 \<times> 1\<close> bbox
  has half-size 0, an empty crop, and the resize raises; and for a bbox left of and
  above the frame the right and bottom crop coordinates are negative.
\<close>

theorem extract_roi_patch_counterexample:
  "crop_window (100, 100) (0, 0, 20, 40) \<noteq> (0, 0, 40, 40)
   \<and> extract_roi_patch (\<lambda>_::unit. (100, 100)) () (0, 0, 1, 1) 256 = Inl CvError
   \<and> crop_window (100, 100) (-100, -100, -50, -50) = (0, 0, -50, -50)"
  by (simp add: crop_window_eq extract_roi_patch_def np_slice_def slice_index_def cv2_resize_def)

subsection \<open>Regular expressions and number conversion\<close>

lemma greedy_sound:
  "(p, r) \<in> set (greedy as s) \<Longrightarrow> s = p @ r \<and> list_all (class_match as) p"
  by (induction s arbitrary: p r) (auto split: if_splits)

lemma matches_One_D:
  "(p, g, r) \<in> set (matches (One as) s) \<Longrightarrow> \<exists>c. s = c # r \<and> p = [c] \<and> g = None \<and> class_match as c"
  by (cases s) (auto split: if_splits)

lemma matches_Many_D:
  "(p, g, r) \<in> set (matches (Many as) s) \<Longrightarrow> s = p @ r \<and> g = None \<and> list_all (class_match as) p"
  using greedy_sound by fastforce

lemma matches_Many1_D:
  "(p, g, r) \<in> set (matches (Many1 as) s) \<Longrightarrow>
     s = p @ r \<and> g = None \<and> p \<noteq> [] \<and> list_all (class_match as) p"
  using greedy_sound by fastforce

lemma matches_Opt_D:
  "(p, g, r) \<in> set (matches (Opt a) s) \<Longrightarrow>
     (p, g, r) \<in> set (matches a s) \<or> (p = [] \<and> g = None \<and> r = s)"
  by auto

lemma matches_Seq_D:
  "(p, g, r) \<in> set (matches (Seq a b) s) \<Longrightarrow>
     \<exists>p1 g1 r1 p2 g2. (p1, g1, r1) \<in> set (matches a s) \<and> (p2, g2, r) \<in> set (matches b r1)
        \<and> p = p1 @ p2 \<and> g = (case g2 of None \<Rightarrow> g1 | Some x \<Rightarrow> Some x)"
  by fastforce

lemma matches_Group_D:
  "(p, g, r) \<in> set (matches (Group a) s) \<Longrightarrow> g = Some p \<and> (\<exists>g'. (p, g', r) \<in> set (matches a s))"
  by auto

lemma re_search_sound:
  "re_search rx s = Some (p, g) \<Longrightarrow> \<exists>s' r. (p, g, r) \<in> set (matches rx s')"
proof (induction s)
  case Nil
  then show ?case by (auto split: list.splits) (metis list.set_intros(1))
next
  case (Cons c cs)
  show ?case
  proof (cases "matches rx (c # cs)")
    case Nil
    with Cons show ?thesis by simp
  next
    case (Cons m ms)
    with Cons.prems have "m = (p, g, snd (snd m))" by (cases m) auto
    then have "(p, g, snd (snd m)) \<in> set (matches rx (c # cs))"
      using Cons by (metis list.set_intros(1))
    then show ?thesis by blast
  qed
qed

lemma upper_cases:
  "upper c = c \<or>
   (c, upper c) \<in> set (zip ''abcdefghijklmnopqrstuvwxyz'' ''ABCDEFGHIJKLMNOPQRSTUVWXYZ'')"
proof (cases "map_of (zip ''abcdefghijklmnopqrstuvwxyz'' ''ABCDEFGHIJKLMNOPQRSTUVWXYZ'') c")
  case None
  then have "upper c = c"
    unfolding upper_def by (simp only: option.case)
  then show ?thesis ..
next
  case (Some u)
  then have "upper c = u"
    unfolding upper_def by (simp only: option.case)
  moreover have "(c, u) \<in> set (zip ''abcdefghijklmnopqrstuvwxyz'' ''ABCDEFGHIJKLMNOPQRSTUVWXYZ'')"
    using Some by (rule map_of_SomeD)
  ultimately show ?thesis by simp
qed

lemma upper_literals:
  "upper CHR ''.'' = CHR ''.''" "upper CHR ''N'' = CHR ''N''" "upper CHR ''S'' = CHR ''S''"
  "upper CHR ''E'' = CHR ''E''" "upper CHR ''W'' = CHR ''W''"
  by (simp_all add: upper_def)

lemma upper_dot: "upper c = CHR ''.'' \<longleftrightarrow> c = CHR ''.''"
  using upper_cases [of c] by (auto simp: upper_def)

lemma upper_S: "upper c = CHR ''S'' \<longleftrightarrow> c = CHR ''S'' \<or> c = CHR ''s''"
  using upper_cases [of c] by (auto simp: upper_def)

lemma upper_W: "upper c = CHR ''W'' \<longleftrightarrow> c = CHR ''W'' \<or> c = CHR ''w''"
  using upper_cases [of c] by (auto simp: upper_def)

lemma coordinate_shape:
  assumes "(p, g, r) \<in> set (matches (cat [One ms, Many [Space],
     Group (cat [Many1 [Digit], Opt (One [Lit CHR ''.'']), Many [Space], Many1 [Digit]])]) s)"
  shows "\<exists>m ws q. p = m # ws @ q \<and> class_match ms m \<and> list_all isspace ws
     \<and> g = Some q \<and> list_all number_char q"
proof -
  have a0: "(p, g, r) \<in> set (matches (Seq (One ms) (Seq (Many [Space])
       (Group (cat [Many1 [Digit], Opt (One [Lit CHR ''.'']), Many [Space], Many1 [Digit]])))) s)"
    using assms by (simp only: cat.simps)
  from matches_Seq_D [OF a0] obtain p1 g1 r1 p2 g2 where
    a: "(p1, g1, r1) \<in> set (matches (One ms) s)"
    and b: "(p2, g2, r) \<in> set (matches (Seq (Many [Space])
       (Group (cat [Many1 [Digit], Opt (One [Lit CHR ''.'']), Many [Space], Many1 [Digit]]))) r1)"
    and p: "p = p1 @ p2" and g: "g = (case g2 of None \<Rightarrow> g1 | Some x \<Rightarrow> Some x)"
    by blast
  from matches_One_D [OF a] obtain m where m: "p1 = [m]" "g1 = None" "class_match ms m"
    by blast
  from matches_Seq_D [OF b] obtain ws gw rw q gq where
    w: "(ws, gw, rw) \<in> set (matches (Many [Space]) r1)"
    and q: "(q, gq, r) \<in> set (matches (Group (cat [Many1 [Digit], Opt (One [Lit CHR ''.'']), Many [Space], Many1 [Digit]])) rw)"
    and p2: "p2 = ws @ q" and g2: "g2 = (case gq of None \<Rightarrow> gw | Some x \<Rightarrow> Some x)"
    by blast
  from matches_Many_D [OF w] have ws: "gw = None" "list_all (class_match [Space]) ws"
    by simp_all
  from matches_Group_D [OF q] obtain g' where gq: "gq = Some q"
    and q0: "(q, g', r) \<in> set (matches (cat [Many1 [Digit], Opt (One [Lit CHR ''.'']), Many [Space], Many1 [Digit]]) rw)"
    by blast
  have q': "(q, g', r) \<in> set (matches (Seq (Many1 [Digit]) (Seq (Opt (One [Lit CHR ''.''])) (Seq (Many [Space]) (Many1 [Digit])))) rw)"
    using q0 by (simp only: cat.simps)
  from matches_Seq_D [OF q'] obtain d1 gd1 rd1 t1 gt1 where
    d1: "(d1, gd1, rd1) \<in> set (matches (Many1 [Digit]) rw)"
    and t1: "(t1, gt1, r) \<in> set (matches (Seq (Opt (One [Lit CHR ''.''])) (Seq (Many [Space]) (Many1 [Digit]))) rd1)"
    and qd: "q = d1 @ t1"
    by blast
  from matches_Seq_D [OF t1] obtain dot gdot rdot t2 gt2 where
    dot: "(dot, gdot, rdot) \<in> set (matches (Opt (One [Lit CHR ''.''])) rd1)"
    and t2: "(t2, gt2, r) \<in> set (matches (Seq (Many [Space]) (Many1 [Digit])) rdot)"
    and t1d: "t1 = dot @ t2"
    by blast
  from matches_Seq_D [OF t2] obtain sp gsp rsp d2 gd2 where
    sp: "(sp, gsp, rsp) \<in> set (matches (Many [Space]) rdot)"
    and d2: "(d2, gd2, r) \<in> set (matches (Many1 [Digit]) rsp)"
    and t2d: "t2 = sp @ d2"
    by blast
  have "list_all number_char d1"
    using matches_Many1_D [OF d1] by (auto simp: list_all_iff class_match_def number_char_def)
  moreover have "list_all number_char dot"
    using matches_Opt_D [OF dot] matches_One_D [of dot gdot rdot "[Lit CHR ''.'']" rd1]
    by (auto simp: class_match_def number_char_def upper_literals upper_dot)
  moreover have "list_all number_char sp"
    using matches_Many_D [OF sp] by (auto simp: list_all_iff class_match_def number_char_def)
  moreover have "list_all number_char d2"
    using matches_Many1_D [OF d2] by (auto simp: list_all_iff class_match_def number_char_def)
  ultimately have "list_all number_char q"
    by (simp add: qd t1d t2d)
  moreover have "list_all isspace ws"
    using ws by (auto simp: list_all_iff class_match_def)
  ultimately show ?thesis
    using m p p2 g g2 gq by simp
qed

lemma number_char_upper:
  "number_char c \<Longrightarrow> upper c \<noteq> CHR ''S'' \<and> upper c \<noteq> CHR ''W'' \<and> c \<noteq> CHR ''-''"
  by (auto simp: number_char_def isdigit_def isspace_def upper_S upper_W)

lemma set_strip: "set (strip s) \<subseteq> set s"
  unfolding strip_def by (metis set_dropWhileD set_rev subsetI)

lemma py_float_nonneg:
  assumes "CHR ''-'' \<notin> set s" and "py_float s = Inr v"
  shows "0 \<le> v"
proof -
  have "(case strip s of [] \<Rightarrow> False | c # _ \<Rightarrow> c = CHR ''-'') = False"
    using assms(1) set_strip [of s] by (cases "strip s") auto
  then show ?thesis
    using assms(2) by (auto simp: py_float_def Let_def split: if_splits)
qed

lemmas text_defs = lat_pattern_def lon_pattern_def speed_pattern_def lit_def class_match_def
  isdigit_def isspace_def upper_def py_float_def strip_def nat_of_digits_def digit_value_def
  remove_spaces_def Let_def

lemma coordinate_sign:
  assumes search: "re_search (cat [One [Lit a, Lit b], Many [Space],
     Group (cat [Many1 [Digit], Opt (One [Lit CHR ''.'']), Many [Space], Many1 [Digit]])]) text
       = Some (g0, Some g1)"
    and conv: "py_float (remove_spaces g1) = Inr v"
    and mark: "marker = CHR ''S'' \<or> marker = CHR ''W''"
  shows "\<exists>m tail. g0 = m # tail \<and> (upper m = upper a \<or> upper m = upper b) \<and> 0 \<le> v
     \<and> (marker \<in> set (map upper g0) \<longleftrightarrow> upper m = marker)"
proof -
  from re_search_sound [OF search] obtain s r where
    "(g0, Some g1, r) \<in> set (matches (cat [One [Lit a, Lit b], Many [Space],
       Group (cat [Many1 [Digit], Opt (One [Lit CHR ''.'']), Many [Space], Many1 [Digit]])]) s)"
    by blast
  from coordinate_shape [OF this] obtain m ws where
    shape: "g0 = m # ws @ g1" "class_match [Lit a, Lit b] m" "list_all isspace ws"
      "list_all number_char g1"
    by auto
  have tail: "\<forall>c \<in> set (ws @ g1). upper c \<noteq> marker"
    using shape(3,4) mark number_char_upper
    by (auto simp: list_all_iff number_char_def)
  have "CHR ''-'' \<notin> set (remove_spaces g1)"
    using shape(4) number_char_upper by (auto simp: list_all_iff remove_spaces_def)
  then have "0 \<le> v"
    using conv by (rule py_float_nonneg)
  moreover have "upper m = upper a \<or> upper m = upper b"
    using shape(2) by (auto simp: class_match_def)
  moreover have "marker \<in> set (map upper g0) \<longleftrightarrow> upper m = marker"
    using tail shape(1) by auto
  ultimately show ?thesis
    using shape(1) by blast
qed

lemma parse_lat_sign:
  assumes "parse_lat text = Inr (Some lat)"
  shows "\<exists>m tail q v. re_search lat_pattern text = Some (m # tail, Some q)
     \<and> (upper m = CHR ''N'' \<or> upper m = CHR ''S'')
     \<and> py_float (remove_spaces q) = Inr v \<and> 0 \<le> v
     \<and> lat = (if upper m = CHR ''S'' then - v else v)"
proof -
  from assms obtain g0 g1 v where
    search: "re_search lat_pattern text = Some (g0, Some g1)"
    and conv: "py_float (remove_spaces g1) = Inr v"
    and lat: "lat = (if CHR ''S'' \<in> set (map upper g0) then - \<bar>v\<bar> else v)"
    by (auto simp: parse_lat_def split: option.splits sum.splits)
  from coordinate_sign [OF search [unfolded lat_pattern_def] conv, of "CHR ''S''"]
  obtain m tail where "g0 = m # tail" "upper m = CHR ''N'' \<or> upper m = CHR ''S''" "0 \<le> v"
    "CHR ''S'' \<in> set (map upper g0) \<longleftrightarrow> upper m = CHR ''S''"
    by (auto simp: upper_literals)
  then show ?thesis
    using search conv lat by auto
qed

lemma parse_lon_sign:
  assumes "parse_lon text = Inr (Some lon)"
  shows "\<exists>m tail q v. re_search lon_pattern text = Some (m # tail, Some q)
     \<and> (upper m = CHR ''E'' \<or> upper m = CHR ''W'')
     \<and> py_float (remove_spaces q) = Inr v \<and> 0 \<le> v
     \<and> lon = (if upper m = CHR ''W'' then - v else v)"
proof -
  from assms obtain g0 g1 v where
    search: "re_search lon_pattern text = Some (g0, Some g1)"
    and conv: "py_float (remove_spaces g1) = Inr v"
    and lon: "lon = (if CHR ''W'' \<in> set (map upper g0) then - \<bar>v\<bar> else v)"
    by (auto simp: parse_lon_def split: option.splits sum.splits)
  from coordinate_sign [OF search [unfolded lon_pattern_def] conv, of "CHR ''W''"]
  obtain m tail where "g0 = m # tail" "upper m = CHR ''E'' \<or> upper m = CHR ''W''" "0 \<le> v"
    "CHR ''W'' \<in> set (map upper g0) \<longleftrightarrow> upper m = CHR ''W''"
    by (auto simp: upper_literals)
  then show ?thesis
    using search conv lon by auto
qed

lemma no_group_None:
  "no_group rx \<Longrightarrow> (p, g, r) \<in> set (matches rx s) \<Longrightarrow> g = None"
proof (induction rx arbitrary: p g r s)
  case (One as)
  then show ?case using matches_One_D by blast
next
  case (Many as)
  then show ?case using matches_Many_D by blast
next
  case (Many1 as)
  then show ?case using matches_Many1_D by blast
next
  case (Opt rx)
  then show ?case using matches_Opt_D by (metis no_group.simps(4))
next
  case (Seq a b)
  from matches_Seq_D [OF Seq.prems(2)] obtain p1 g1 r1 p2 g2 where
    "(p1, g1, r1) \<in> set (matches a s)" "(p2, g2, r) \<in> set (matches b r1)"
    "g = (case g2 of None \<Rightarrow> g1 | Some x \<Rightarrow> Some x)"
    by blast
  moreover have "no_group a" "no_group b"
    using Seq.prems(1) by simp_all
  ultimately show ?case
    using Seq.IH by (metis option.simps(4))
next
  case (Group rx)
  then show ?case by simp
qed

lemma speed_shape:
  assumes "(p, g, r) \<in> set (matches speed_pattern s)"
  shows "\<exists>ds. g = Some ds \<and> ds \<noteq> [] \<and> list_all isdigit ds"
proof -
  have a0: "(p, g, r) \<in> set (matches (Seq (Group (Many1 [Digit]))
       (cat [Many [Space], lit ''KM/H''])) s)"
    using assms by (simp only: speed_pattern_def cat.simps)
  from matches_Seq_D [OF a0] obtain p1 g1 r1 p2 g2 where
    a: "(p1, g1, r1) \<in> set (matches (Group (Many1 [Digit])) s)"
    and b: "(p2, g2, r) \<in> set (matches (cat [Many [Space], lit ''KM/H'']) r1)"
    and g: "g = (case g2 of None \<Rightarrow> g1 | Some x \<Rightarrow> Some x)"
    by blast
  have "no_group (cat [Many [Space], lit ''KM/H''])"
    by (simp add: lit_def)
  then have "g2 = None"
    using b by (rule no_group_None)
  moreover from matches_Group_D [OF a] obtain g' where
    "g1 = Some p1" "(p1, g', r1) \<in> set (matches (Many1 [Digit]) s)"
    by blast
  moreover from matches_Many1_D [OF this(2)] have "p1 \<noteq> []" "list_all isdigit p1"
    by (auto simp: list_all_iff class_match_def)
  ultimately show ?thesis
    using g by simp
qed

lemma isdigit_not_space: "isdigit c \<Longrightarrow> \<not> isspace c \<and> c \<noteq> CHR ''-'' \<and> c \<noteq> CHR ''+''"
  by (auto simp: isdigit_def isspace_def)

lemma strip_digits: "list_all isdigit ds \<Longrightarrow> strip ds = ds"
proof -
  assume d: "list_all isdigit ds"
  then have a: "dropWhile isspace ds = ds"
    by (cases ds) (auto simp: isdigit_not_space)
  have "list_all isdigit (rev ds)"
    using d by (simp add: list_all_iff)
  then have "dropWhile isspace (rev ds) = rev ds"
    by (cases "rev ds") (auto simp: isdigit_not_space)
  then show ?thesis
    by (simp add: strip_def a)
qed

lemma py_float_digits:
  assumes "ds \<noteq> []" "list_all isdigit ds"
  shows "py_float ds = Inr (real (nat_of_digits ds))"
proof -
  obtain c cs where ds: "ds = c # cs"
    using assms(1) by (cases ds) auto
  have c: "c \<noteq> CHR ''-''" "c \<noteq> CHR ''+''"
    using assms(2) ds isdigit_not_space by auto
  have tw: "takeWhile isdigit ds = ds" "dropWhile isdigit ds = []"
    using assms(2) by (simp_all add: list_all_iff)
  have "nat_of_digits [] = 0"
    by (simp add: nat_of_digits_def)
  then show ?thesis
    using c tw assms(1) unfolding py_float_def strip_digits [OF assms(2)] Let_def
    by (simp add: ds)
qed

lemma parse_speed_cases:
  "(re_search speed_pattern text = None \<and> parse_speed text = Inr None)
   \<or> (\<exists>g0 ds. re_search speed_pattern text = Some (g0, Some ds) \<and> ds \<noteq> [] \<and> list_all isdigit ds
        \<and> parse_speed text = Inr (Some (real (nat_of_digits ds))))"
proof (cases "re_search speed_pattern text")
  case None
  then show ?thesis by (simp add: parse_speed_def)
next
  case (Some m)
  obtain g0 g where m: "m = (g0, g)" by (cases m)
  from re_search_sound [OF Some [unfolded m]] obtain s r where
    "(g0, g, r) \<in> set (matches speed_pattern s)" by blast
  from speed_shape [OF this] obtain ds where ds: "g = Some ds" "ds \<noteq> []" "list_all isdigit ds"
    by blast
  then show ?thesis
    using Some m py_float_digits [OF ds(2,3)] by (simp add: parse_speed_def)
qed

lemmas decode_defs = extract_gps_from_frame_def try_ocr_def parse_overlay_def parse_lat_def
  parse_lon_def parse_speed_def

subsection \<open>Parsing the overlay text\<close>

text \<open>
  The pipeline's parser on well-formed overlay text: the two examples, and the sign
  rule of its marker patterns. A parsed latitude is the number read, negated exactly
  when the marker is \<open>S\<close> or \<open>s\<close>, and a parsed longitude is the number read, negated
  exactly when the marker is \<open>W\<close> or \<open>w\<close>; the number read is never negative.
\<close>

lemma overlay_parse:
  "(\<forall>(env :: 'f ocr) frame n.
      pytesseract_installed env \<and> recognise env frame Plain = Inr ''40 KM/H N43.792879 W79.314193''
      \<longrightarrow> extract_gps_from_frame env frame n = Inr (43.792879, - 79.314193, 40.0))
   \<and> (\<forall>(env :: 'f ocr) frame n.
      pytesseract_installed env \<and> recognise env frame Plain = Inr ''S43.7 W79.3''
      \<longrightarrow> extract_gps_from_frame env frame n = Inr (- 43.7, - 79.3, 0.0))
   \<and> (\<forall>text lat. parse_lat text = Inr (Some lat) \<longrightarrow>
        (\<exists>m tail q v. re_search lat_pattern text = Some (m # tail, Some q)
           \<and> (upper m = CHR ''N'' \<or> upper m = CHR ''S'')
           \<and> py_float (filter (\<lambda>c. c \<noteq> CHR 0x20 \<and> c \<noteq> CHR 0x0A) q) = Inr v \<and> 0 \<le> v
           \<and> lat = (if upper m = CHR ''S'' then - v else v)))
   \<and> (\<forall>text lon. parse_lon text = Inr (Some lon) \<longrightarrow>
        (\<exists>m tail q v. re_search lon_pattern text = Some (m # tail, Some q)
           \<and> (upper m = CHR ''E'' \<or> upper m = CHR ''W'')
           \<and> py_float (filter (\<lambda>c. c \<noteq> CHR 0x20 \<and> c \<noteq> CHR 0x0A) q) = Inr v \<and> 0 \<le> v
           \<and> lon = (if upper m = CHR ''W'' then - v else v)))"
proof -
  have ex1: "parse_overlay ''40 KM/H N43.792879 W79.314193'' = Inr (Some (43.792879, - 79.314193, 40.0))"
    by (simp add: parse_overlay_def parse_lat_def parse_lon_def parse_speed_def text_defs)
  have ex2: "parse_overlay ''S43.7 W79.3'' = Inr (Some (- 43.7, - 79.3, 0.0))"
    by (simp add: parse_overlay_def parse_lat_def parse_lon_def parse_speed_def text_defs)
  have rs: "remove_spaces q = filter (\<lambda>c. c \<noteq> CHR 0x20 \<and> c \<noteq> CHR 0x0A) q" for q
    by (auto simp: remove_spaces_def intro: filter_cong)
  show ?thesis
    using ex1 ex2 parse_lat_sign parse_lon_sign
    by (simp add: extract_gps_from_frame_def try_ocr_def rs)
qed

text \<open>
  C5. The claim has all whitespace removed from inside the matched number before it is
  converted, and the code's comment says so too. The code removes spaces and newlines
  only, while \<^verbatim>\<open>\s\<close> in the pattern also lets a tab into the number. On the text
  \<open>N43.<TAB>792879 W79.314193\<close> the matched number keeps its tab, \<^verbatim>\<open>float\<close> raises
  \<^verbatim>\<open>ValueError\<close>, the pipeline's decoder returns the simulated fix and the stand-alone
  parser returns no latitude, where the number with its whitespace removed reads
  43.792879.
\<close>

theorem overlay_tab_not_stripped:
  "re_search lat_pattern (''N43.'' @ [CHR 0x09] @ ''792879 W79.314193'')
      = Some (''N43.'' @ [CHR 0x09] @ ''792879'', Some (''43.'' @ [CHR 0x09] @ ''792879''))
   \<and> isspace (CHR 0x09)
   \<and> remove_spaces (''43.'' @ [CHR 0x09] @ ''792879'') = ''43.'' @ [CHR 0x09] @ ''792879''
   \<and> filter (\<lambda>c. \<not> isspace c) (''43.'' @ [CHR 0x09] @ ''792879'') = ''43.792879''
   \<and> parse_lat ''N43.792879 W79.314193'' = Inr (Some 43.792879)
   \<and> parse_lat (''N43.'' @ [CHR 0x09] @ ''792879 W79.314193'') = Inl ValueError
   \<and> extract_gps_from_frame
        \<lparr>pytesseract_installed = True,
         recognise = \<lambda>_ _. Inr (''N43.'' @ [CHR 0x09] @ ''792879 W79.314193'')\<rparr> () 0
      = Inr (simulated_gps 0)
   \<and> parse_best_text (''N43.'' @ [CHR 0x09] @ ''792879 W79.314193'')
      = Inr (None, Some (- 79.314193), None)"
proof -
  have pipeline: "re_search lat_pattern (''N43.'' @ [CHR 0x09] @ ''792879 W79.314193'')
      = Some (''N43.'' @ [CHR 0x09] @ ''792879'', Some (''43.'' @ [CHR 0x09] @ ''792879''))
   \<and> isspace (CHR 0x09)
   \<and> remove_spaces (''43.'' @ [CHR 0x09] @ ''792879'') = ''43.'' @ [CHR 0x09] @ ''792879''
   \<and> filter (\<lambda>c. \<not> isspace c) (''43.'' @ [CHR 0x09] @ ''792879'') = ''43.792879''
   \<and> parse_lat ''N43.792879 W79.314193'' = Inr (Some 43.792879)
   \<and> parse_lat (''N43.'' @ [CHR 0x09] @ ''792879 W79.314193'') = Inl ValueError
   \<and> extract_gps_from_frame
        \<lparr>pytesseract_installed = True,
         recognise = \<lambda>_ _. Inr (''N43.'' @ [CHR 0x09] @ ''792879 W79.314193'')\<rparr> () 0
      = Inr (simulated_gps 0)"
    by (simp add: decode_defs text_defs)
  have alone: "parse_best_text (''N43.'' @ [CHR 0x09] @ ''792879 W79.314193'')
      = Inr (None, Some (- 79.314193), None)"
    by (simp add: parse_best_text_def text_defs lat_label_pattern_def lon_label_pattern_def
        heading_label_pattern_def)
  show ?thesis
    using pipeline alone by blast
qed

subsection \<open>The fallback fix\<close>

lemma float_mod_range:
  assumes y: "0 < y"
  shows "0 \<le> float_mod x y \<and> float_mod x y < y"
proof -
  have "of_int \<lfloor>x / y\<rfloor> \<le> x / y"
    by simp
  then have lo: "of_int \<lfloor>x / y\<rfloor> * y \<le> x"
    by (simp only: pos_le_divide_eq [OF y])
  have "x / y < of_int \<lfloor>x / y\<rfloor> + 1"
    by linarith
  then have hi: "x < (of_int \<lfloor>x / y\<rfloor> + 1) * y"
    by (simp only: pos_divide_less_eq [OF y])
  show ?thesis
    using lo hi by (simp add: float_mod_def algebra_simps)
qed

text \<open>
  C2. Whenever decoding falls back (the \<^verbatim>\<open>try\<close> block does not return a fix: the
  import fails, something raises, or latitude or longitude is not found), the fix
  returned is \<open>lat = 43.7900 + (n/10000) * 0.0001\<close>,
  \<open>lon = -79.3140 + (n/10000) * 0.0001\<close>, \<open>heading = (45.0 + (n/100) * 2.5) mod 360\<close>
  for the frame number \<open>n\<close>: the right-hand side mentions neither the frame nor the
  environment. The heading is the representative in \<open>[0, 360)\<close>.
\<close>

theorem fallback_closed_form:
  "(\<forall>fix. try_ocr env frame \<noteq> Inr (Some fix)) \<longrightarrow>
     extract_gps_from_frame env frame frame_number =
       Inr (43.7900 + (real_of_int frame_number / 10000) * 0.0001,
            - 79.3140 + (real_of_int frame_number / 10000) * 0.0001,
            float_mod (45.0 + (real_of_int frame_number / 100) * 2.5) 360)
     \<and> 0 \<le> float_mod (45.0 + (real_of_int frame_number / 100) * 2.5) 360
     \<and> float_mod (45.0 + (real_of_int frame_number / 100) * 2.5) 360 < 360
     \<and> (\<exists>k :: int. float_mod (45.0 + (real_of_int frame_number / 100) * 2.5) 360
           = 45.0 + (real_of_int frame_number / 100) * 2.5 - 360 * real_of_int k)"
proof
  assume fb: "\<forall>fix. try_ocr env frame \<noteq> Inr (Some fix)"
  have "extract_gps_from_frame env frame frame_number = Inr (simulated_gps frame_number)"
    using fb by (auto simp: extract_gps_from_frame_def split: sum.splits option.splits)
  moreover have "\<exists>k :: int. float_mod (45.0 + (real_of_int frame_number / 100) * 2.5) 360
           = 45.0 + (real_of_int frame_number / 100) * 2.5 - 360 * real_of_int k"
    unfolding float_mod_def by blast
  ultimately show "extract_gps_from_frame env frame frame_number =
       Inr (43.7900 + (real_of_int frame_number / 10000) * 0.0001,
            - 79.3140 + (real_of_int frame_number / 10000) * 0.0001,
            float_mod (45.0 + (real_of_int frame_number / 100) * 2.5) 360)
     \<and> 0 \<le> float_mod (45.0 + (real_of_int frame_number / 100) * 2.5) 360
     \<and> float_mod (45.0 + (real_of_int frame_number / 100) * 2.5) 360 < 360
     \<and> (\<exists>k :: int. float_mod (45.0 + (real_of_int frame_number / 100) * 2.5) 360
           = 45.0 + (real_of_int frame_number / 100) * 2.5 - 360 * real_of_int k)"
    using float_mod_range [of 360 "45.0 + (real_of_int frame_number / 100) * 2.5"]
    by (simp add: simulated_gps_def)
qed

theorem fallback_closed_form_witness:
  "extract_gps_from_frame \<lparr>pytesseract_installed = False, recognise = \<lambda>_ _. Inr ''''\<rparr> () 30000
     = Inr (43.7903, - 79.3137, 75)
   \<and> extract_gps_from_frame \<lparr>pytesseract_installed = True, recognise = \<lambda>_ _. Inl RuntimeError\<rparr> () 30000
     = Inr (43.7903, - 79.3137, 75)
   \<and> extract_gps_from_frame \<lparr>pytesseract_installed = True, recognise = \<lambda>_ _. Inr ''no fix''\<rparr> () 30000
     = Inr (43.7903, - 79.3137, 75)"
proof -
  have a: "\<forall>fix. try_ocr \<lparr>pytesseract_installed = False, recognise = \<lambda>(_::unit) _. Inr ''''\<rparr> () \<noteq> Inr (Some fix)"
    by (simp add: try_ocr_def)
  have b: "\<forall>fix. try_ocr \<lparr>pytesseract_installed = True, recognise = \<lambda>(_::unit) _. Inl RuntimeError\<rparr> () \<noteq> Inr (Some fix)"
    by (simp add: try_ocr_def)
  have c: "\<forall>fix. try_ocr \<lparr>pytesseract_installed = True, recognise = \<lambda>(_::unit) _. Inr ''no fix''\<rparr> () \<noteq> Inr (Some fix)"
    by (simp add: try_ocr_def parse_overlay_def parse_lat_def parse_lon_def parse_speed_def text_defs)
  have v: "float_mod (45.0 + (real_of_int 30000 / 100) * 2.5) 360 = 75"
    by (simp add: float_mod_def)
  show ?thesis
    using fallback_closed_form [THEN mp, OF a, of 30000]
      fallback_closed_form [THEN mp, OF b, of 30000]
      fallback_closed_form [THEN mp, OF c, of 30000] v
    by simp
qed

text \<open>
  C6. \<^verbatim>\<open>extract_gps_from_frame\<close> never raises: for every environment, frame and frame
  number it returns a triple, and every failure on the way (OCR not installed, the
  recognition raising, the text not parsing or a number not converting) is replaced by
  the simulated fix.
\<close>

theorem decoder_never_raises:
  "(\<exists>lat lon heading. extract_gps_from_frame env frame frame_number = Inr (lat, lon, heading))
   \<and> (\<not> pytesseract_installed env \<longrightarrow>
        extract_gps_from_frame env frame frame_number = Inr (simulated_gps frame_number))
   \<and> (\<forall>e. recognise env frame Plain = Inl e \<longrightarrow>
        extract_gps_from_frame env frame frame_number = Inr (simulated_gps frame_number))
   \<and> (\<forall>text. pytesseract_installed env \<and> recognise env frame Plain = Inr text
         \<and> (parse_overlay text = Inr None \<or> (\<exists>e. parse_overlay text = Inl e)) \<longrightarrow>
        extract_gps_from_frame env frame frame_number = Inr (simulated_gps frame_number))"
proof -
  have "\<exists>lat lon heading. extract_gps_from_frame env frame frame_number = Inr (lat, lon, heading)"
    by (cases "try_ocr env frame")
      (auto simp: extract_gps_from_frame_def simulated_gps_def split: option.splits)
  moreover have "\<not> pytesseract_installed env \<longrightarrow>
        extract_gps_from_frame env frame frame_number = Inr (simulated_gps frame_number)"
    by (simp add: extract_gps_from_frame_def try_ocr_def)
  moreover have "\<forall>e. recognise env frame Plain = Inl e \<longrightarrow>
        extract_gps_from_frame env frame frame_number = Inr (simulated_gps frame_number)"
    by (auto simp: extract_gps_from_frame_def try_ocr_def)
  moreover have "\<forall>text. pytesseract_installed env \<and> recognise env frame Plain = Inr text
         \<and> (parse_overlay text = Inr None \<or> (\<exists>e. parse_overlay text = Inl e)) \<longrightarrow>
        extract_gps_from_frame env frame frame_number = Inr (simulated_gps frame_number)"
    by (auto simp: extract_gps_from_frame_def try_ocr_def)
  ultimately show ?thesis by blast
qed

theorem decoder_never_raises_witness:
  "extract_gps_from_frame \<lparr>pytesseract_installed = False, recognise = \<lambda>_ _. Inr ''''\<rparr> () 7
     = Inr (simulated_gps 7)
   \<and> extract_gps_from_frame \<lparr>pytesseract_installed = True, recognise = \<lambda>_ _. Inl OSError\<rparr> () 7
     = Inr (simulated_gps 7)
   \<and> extract_gps_from_frame
       \<lparr>pytesseract_installed = True, recognise = \<lambda>_ _. Inr (''N43.'' @ [CHR 0x09] @ ''5 W79.3'')\<rparr> () 7
     = Inr (simulated_gps 7)"
proof -
  have c: "parse_overlay (''N43.'' @ [CHR 0x09] @ ''5 W79.3'') = Inl ValueError"
    by (simp add: parse_overlay_def parse_lat_def text_defs)
  show ?thesis
    using c
      decoder_never_raises [of "\<lparr>pytesseract_installed = False, recognise = \<lambda>(_::unit) _. Inr ''''\<rparr>" "()" 7]
      decoder_never_raises [of "\<lparr>pytesseract_installed = True, recognise = \<lambda>(_::unit) _. Inl OSError\<rparr>" "()" 7]
      decoder_never_raises [of "\<lparr>pytesseract_installed = True, recognise = \<lambda>(_::unit) _. Inr (''N43.'' @ [CHR 0x09] @ ''5 W79.3'')\<rparr>" "()" 7]
    by simp
qed

subsection \<open>The GeoFix invariant\<close>

lemma parse_overlay_heading:
  assumes "parse_overlay text = Inr (Some (lat, lon, heading))"
  shows "(re_search speed_pattern text = None \<and> heading = 0)
     \<or> (\<exists>g0 ds. re_search speed_pattern text = Some (g0, Some ds) \<and> ds \<noteq> []
          \<and> list_all isdigit ds \<and> heading = real (nat_of_digits ds))"
  using assms parse_speed_cases [of "text"]
  by (auto simp: parse_overlay_def split: sum.splits option.splits)

text \<open>
  C7 (amended). Every fix \<^verbatim>\<open>extract_gps_from_frame\<close> returns has latitude and longitude
  populated and a heading that is not negative. On the fallback path the heading is the
  formula value taken mod 360, in \<open>[0, 360)\<close>. On the decoded path the heading is the
  whole number printed in front of \<open>KM/H\<close>, used as it is (not reduced mod 360), and 0.0
  when the text has no such number.
\<close>

theorem geofix_invariant:
  "(\<exists>lat lon heading.
      extract_gps_from_frame env frame frame_number = Inr (lat, lon, heading) \<and> 0 \<le> heading)
   \<and> ((\<forall>fix. try_ocr env frame \<noteq> Inr (Some fix)) \<longrightarrow>
        (\<exists>lat lon heading.
           extract_gps_from_frame env frame frame_number = Inr (lat, lon, heading)
         \<and> heading = float_mod (45.0 + (real_of_int frame_number / 100) * 2.5) 360
         \<and> 0 \<le> heading \<and> heading < 360))
   \<and> (\<forall>lat lon heading. try_ocr env frame = Inr (Some (lat, lon, heading)) \<longrightarrow>
        extract_gps_from_frame env frame frame_number = Inr (lat, lon, heading)
      \<and> (\<exists>text. recognise env frame Plain = Inr text
           \<and> ((re_search speed_pattern text = None \<and> heading = 0)
              \<or> (\<exists>g0 ds. re_search speed_pattern text = Some (g0, Some ds) \<and> ds \<noteq> []
                    \<and> list_all isdigit ds \<and> heading = real (nat_of_digits ds)))))"
proof -
  have fallback: "\<exists>lat lon heading.
           extract_gps_from_frame env frame frame_number = Inr (lat, lon, heading)
         \<and> heading = float_mod (45.0 + (real_of_int frame_number / 100) * 2.5) 360
         \<and> 0 \<le> heading \<and> heading < 360"
    if "\<forall>fix. try_ocr env frame \<noteq> Inr (Some fix)"
  proof -
    have "extract_gps_from_frame env frame frame_number = Inr (simulated_gps frame_number)"
      using that by (auto simp: extract_gps_from_frame_def split: sum.splits option.splits)
    then show ?thesis
      using float_mod_range [of 360 "45.0 + (real_of_int frame_number / 100) * 2.5"]
      by (simp add: simulated_gps_def)
  qed
  have decoded: "extract_gps_from_frame env frame frame_number = Inr (lat, lon, heading)
      \<and> (\<exists>text. recognise env frame Plain = Inr text
           \<and> ((re_search speed_pattern text = None \<and> heading = 0)
              \<or> (\<exists>g0 ds. re_search speed_pattern text = Some (g0, Some ds) \<and> ds \<noteq> []
                    \<and> list_all isdigit ds \<and> heading = real (nat_of_digits ds))))"
    if ok: "try_ocr env frame = Inr (Some (lat, lon, heading))" for lat lon heading
  proof -
    from ok obtain seen where seen: "recognise env frame Plain = Inr seen"
      "parse_overlay seen = Inr (Some (lat, lon, heading))"
      by (auto simp: try_ocr_def split: if_splits sum.splits)
    show ?thesis
      using ok seen(1) parse_overlay_heading [OF seen(2)]
      by (simp add: extract_gps_from_frame_def)
  qed
  have "\<exists>lat lon heading.
      extract_gps_from_frame env frame frame_number = Inr (lat, lon, heading) \<and> 0 \<le> heading"
  proof (cases "\<exists>fix. try_ocr env frame = Inr (Some fix)")
    case True
    then obtain lat lon heading where "try_ocr env frame = Inr (Some (lat, lon, heading))"
      by (metis prod_cases3)
    from decoded [OF this] show ?thesis
      by auto
  next
    case False
    then show ?thesis
      using fallback by auto
  qed
  then show ?thesis
    using fallback decoded by blast
qed

theorem geofix_invariant_witness:
  "(\<exists>lat lon heading.
      extract_gps_from_frame \<lparr>pytesseract_installed = False, recognise = \<lambda>_ _. Inr ''''\<rparr> () 30000
        = Inr (lat, lon, heading)
      \<and> heading = float_mod (45.0 + (real_of_int 30000 / 100) * 2.5) 360
      \<and> 0 \<le> heading \<and> heading < 360)
   \<and> extract_gps_from_frame
        \<lparr>pytesseract_installed = True, recognise = \<lambda>_ _. Inr ''N43.7 W79.3''\<rparr> () 0
      = Inr (43.7, - 79.3, 0)"
proof -
  have a: "\<forall>fix. try_ocr \<lparr>pytesseract_installed = False, recognise = \<lambda>(_::unit) _. Inr ''''\<rparr> ()
      \<noteq> Inr (Some fix)"
    by (simp add: try_ocr_def)
  have b: "try_ocr \<lparr>pytesseract_installed = True, recognise = \<lambda>(_::unit) _. Inr ''N43.7 W79.3''\<rparr> ()
      = Inr (Some (43.7, - 79.3, 0))"
    by (simp add: decode_defs text_defs)
  show ?thesis
    using a b
      geofix_invariant [of "\<lparr>pytesseract_installed = False, recognise = \<lambda>(_::unit) _. Inr ''''\<rparr>" "()" 30000]
      geofix_invariant [of "\<lparr>pytesseract_installed = True, recognise = \<lambda>(_::unit) _. Inr ''N43.7 W79.3''\<rparr>" "()" 0]
    by blast
qed

text \<open>
  C7 as stated fails on the decoded path: a speed of 400 is returned as heading 400.
\<close>

theorem geofix_invariant_counterexample:
  "extract_gps_from_frame
     \<lparr>pytesseract_installed = True, recognise = \<lambda>_ _. Inr ''400 KM/H N43.792879 W79.314193''\<rparr> () 0
   = Inr (43.792879, - 79.314193, 400)"
  by (simp add: decode_defs text_defs)

subsection \<open>Binarised variants\<close>

lemma max_by3:
  "max_by key a [b, c] =
     (if key b \<le> key a \<and> key c \<le> key a then a else if key c \<le> key b then b else c)"
  by auto

text \<open>
  C1 (amended). The decoder of the pipeline, \<^verbatim>\<open>extract_gps_from_frame\<close>, run on every
  sampled frame, binarises the overlay crop with the plain threshold only and parses
  the text recognised on that one variant: its result depends on nothing else the OCR
  environment would return. The three-variant ensemble is the stand-alone function
  \<^verbatim>\<open>extract_gps_from_frame_ocr\<close>: it recognises text on the plain, the inverted and the
  adaptive variant (an exception of any of the three propagates) and parses the text
  with the greatest count of digit characters, the earliest of them on a tie.
\<close>

theorem ocr_variants:
  "(\<forall>(env :: 'f ocr) (env' :: 'g ocr) frame frame' n.
      pytesseract_installed env = pytesseract_installed env'
      \<and> recognise env frame Plain = recognise env' frame' Plain
      \<longrightarrow> extract_gps_from_frame env frame n = extract_gps_from_frame env' frame' n)
   \<and> (\<forall>(env :: 'f ocr) frame text1 text2 text3.
      pytesseract_installed env \<and> recognise env frame Plain = Inr text1
      \<and> recognise env frame Inverted = Inr text2 \<and> recognise env frame Adaptive = Inr text3
      \<longrightarrow> extract_gps_from_frame_ocr env frame =
            parse_best_text
              (if count_digits text2 \<le> count_digits text1 \<and> count_digits text3 \<le> count_digits text1
               then text1
               else if count_digits text3 \<le> count_digits text2 then text2 else text3))
   \<and> (\<forall>(env :: 'f ocr) frame b e.
      pytesseract_installed env \<and> recognise env frame b = Inl e
      \<longrightarrow> (\<exists>e'. extract_gps_from_frame_ocr env frame = Inl e'))"
proof -
  have one: "extract_gps_from_frame env frame n = extract_gps_from_frame env' frame' n"
    if "pytesseract_installed env = pytesseract_installed env'
      \<and> recognise env frame Plain = recognise env' frame' Plain"
    for env :: "'f ocr" and env' :: "'g ocr" and frame frame' n
    using that by (simp add: extract_gps_from_frame_def try_ocr_def)
  have three: "extract_gps_from_frame_ocr env frame =
            parse_best_text
              (if count_digits text2 \<le> count_digits text1 \<and> count_digits text3 \<le> count_digits text1
               then text1
               else if count_digits text3 \<le> count_digits text2 then text2 else text3)"
    if "pytesseract_installed env \<and> recognise env frame Plain = Inr text1
      \<and> recognise env frame Inverted = Inr text2 \<and> recognise env frame Adaptive = Inr text3"
    for env :: "'f ocr" and frame text1 text2 text3
    using that by (simp add: extract_gps_from_frame_ocr_def py_max_def max_by3 del: max_by.simps)
  have raises: "\<exists>e'. extract_gps_from_frame_ocr env frame = Inl e'"
    if "pytesseract_installed env \<and> recognise env frame b = Inl e"
    for env :: "'f ocr" and frame b e
    using that by (cases b) (auto simp: extract_gps_from_frame_ocr_def split: sum.splits)
  show ?thesis
    using one three raises by blast
qed

theorem ocr_variants_witness:
  "extract_gps_from_frame_ocr
     \<lparr>pytesseract_installed = True,
      recognise = \<lambda>_ b. if b = Inverted then Inr ''40 KM/H N43.792879 W79.314193'' else Inr ''7''\<rparr> ()
   = Inr (Some 43.792879, Some (- 79.314193), Some 40)"
proof -
  let ?env = "\<lparr>pytesseract_installed = True,
      recognise = \<lambda>(_::unit) b. if b = Inverted then Inr ''40 KM/H N43.792879 W79.314193'' else Inr ''7''\<rparr>"
  have a: "pytesseract_installed ?env \<and> recognise ?env () Plain = Inr ''7''
      \<and> recognise ?env () Inverted = Inr ''40 KM/H N43.792879 W79.314193''
      \<and> recognise ?env () Adaptive = Inr ''7''"
    by simp
  have b: "count_digits ''7'' = 1" "count_digits ''40 KM/H N43.792879 W79.314193'' = 18"
    by (simp_all add: count_digits_def isdigit_def)
  have c: "parse_best_text ''40 KM/H N43.792879 W79.314193''
      = Inr (Some 43.792879, Some (- 79.314193), Some 40)"
    by (simp add: parse_best_text_def text_defs)
  have "extract_gps_from_frame_ocr ?env () =
      parse_best_text
        (if count_digits ''40 KM/H N43.792879 W79.314193'' \<le> count_digits ''7''
            \<and> count_digits ''7'' \<le> count_digits ''7''
         then ''7''
         else if count_digits ''7'' \<le> count_digits ''40 KM/H N43.792879 W79.314193''
           then ''40 KM/H N43.792879 W79.314193'' else ''7'')"
    using a ocr_variants [where 'f = unit and 'g = unit] by blast
  then have "extract_gps_from_frame_ocr ?env () = parse_best_text ''40 KM/H N43.792879 W79.314193''"
    by (simp only: b) simp
  then show ?thesis
    using c by simp
qed

text \<open>
  C1 as stated fails for the pipeline's decoder: when only the inverted variant is
  readable, the text with the most digits is not the one parsed, and the decoder falls
  back although a variant holds the coordinates.
\<close>

theorem ocr_variants_counterexample:
  "extract_gps_from_frame
     \<lparr>pytesseract_installed = True,
      recognise = \<lambda>_ b. if b = Inverted then Inr ''40 KM/H N43.792879 W79.314193'' else Inr ''7''\<rparr> () 0
     = Inr (simulated_gps 0)
   \<and> count_digits ''7'' < count_digits ''40 KM/H N43.792879 W79.314193''
   \<and> parse_overlay ''40 KM/H N43.792879 W79.314193'' = Inr (Some (43.792879, - 79.314193, 40))"
  by (simp add: decode_defs text_defs count_digits_def)

subsection \<open>The frame sampler\<close>

lemma process_box_frame_count:
  "process_box env dir vfps frame fix box st = Inr st' \<Longrightarrow>
     frame_count st' = frame_count st \<and> processed_count st' = processed_count st"
  by (auto simp: process_box_def Let_def split: prod.splits if_splits sum.splits option.splits)

lemma process_boxes_frame_count:
  "process_boxes env dir vfps frame fix boxes st = Inr st' \<Longrightarrow>
     frame_count st' = frame_count st \<and> processed_count st' = processed_count st"
proof (induction boxes arbitrary: st)
  case Nil
  then show ?case by simp
next
  case (Cons box boxes)
  then show ?case
    by (auto split: sum.splits dest!: process_box_frame_count)
qed

lemma process_results_frame_count:
  "process_results env dir vfps frame fix results st = Inr st' \<Longrightarrow>
     frame_count st' = frame_count st \<and> processed_count st' = processed_count st"
proof (induction results arbitrary: st)
  case Nil
  then show ?case by simp
next
  case (Cons boxes results)
  then show ?case
    by (auto split: sum.splits dest!: process_boxes_frame_count)
qed

lemma process_frame_frame_count:
  "process_frame env dir vfps frame st = Inr st' \<Longrightarrow>
     frame_count st' = frame_count st \<and> processed_count st' = processed_count st"
  by (auto simp: process_frame_def split: sum.splits dest!: process_results_frame_count)

lemma process_sampled_frame_count_irrelevant:
  "(case process_sampled env dir vfps sampled (st\<lparr>frame_count := a\<rparr>) of
      Inl x \<Rightarrow> Inl x | Inr s \<Rightarrow> Inr (s\<lparr>frame_count := n\<rparr>))
   = (case process_sampled env dir vfps sampled st of
      Inl x \<Rightarrow> Inl x | Inr s \<Rightarrow> Inr (s\<lparr>frame_count := n\<rparr>))"
  by (cases sampled) auto

lemma read_loop_sampled:
  assumes k: "0 < k"
  shows "read_loop env dir vfps k fs st =
     (case process_sampled env dir vfps
             (filter (\<lambda>(i, f). i mod k = 0) (List.enumerate (frame_count st) fs)) st of
        Inl x \<Rightarrow> Inl x
      | Inr s \<Rightarrow> Inr (s\<lparr>frame_count := frame_count st + length fs\<rparr>))"
proof (induction fs arbitrary: st)
  case Nil
  show ?case by simp
next
  case (Cons f fs)
  let ?rest = "filter (\<lambda>(i, f). i mod k = 0) (List.enumerate (Suc (frame_count st)) fs)"
  show ?case
  proof (cases "frame_count st mod k = 0")
    case False
    have "read_loop env dir vfps k (f # fs) st =
        read_loop env dir vfps k fs (st\<lparr>frame_count := frame_count st + 1\<rparr>)"
      using False by simp
    also have "\<dots> = (case process_sampled env dir vfps ?rest
           (st\<lparr>frame_count := frame_count st + 1\<rparr>) of
        Inl x \<Rightarrow> Inl x
      | Inr s \<Rightarrow> Inr (s\<lparr>frame_count := Suc (frame_count st) + length fs\<rparr>))"
      by (subst Cons.IH) (simp cong: sum.case_cong)
    also have "\<dots> = (case process_sampled env dir vfps ?rest st of
        Inl x \<Rightarrow> Inl x
      | Inr s \<Rightarrow> Inr (s\<lparr>frame_count := Suc (frame_count st) + length fs\<rparr>))"
      by (rule process_sampled_frame_count_irrelevant)
    finally show ?thesis
      using False by (simp cong: sum.case_cong)
  next
    case True
    show ?thesis
    proof (cases "process_frame env dir vfps f st")
      case (Inl x)
      then show ?thesis
        using True by simp
    next
      case (Inr st')
      have fc: "frame_count st' = frame_count st"
        using process_frame_frame_count [OF Inr] by simp
      let ?s1 = "st'\<lparr>processed_count := processed_count st' + 1\<rparr>"
      have "read_loop env dir vfps k (f # fs) st =
          read_loop env dir vfps k fs (?s1\<lparr>frame_count := frame_count st + 1\<rparr>)"
        using True Inr fc by simp
      also have "\<dots> = (case process_sampled env dir vfps ?rest
             (?s1\<lparr>frame_count := frame_count st + 1\<rparr>) of
          Inl x \<Rightarrow> Inl x
        | Inr s \<Rightarrow> Inr (s\<lparr>frame_count := Suc (frame_count st) + length fs\<rparr>))"
        by (subst Cons.IH) (simp cong: sum.case_cong)
      also have "\<dots> = (case process_sampled env dir vfps ?rest ?s1 of
          Inl x \<Rightarrow> Inl x
        | Inr s \<Rightarrow> Inr (s\<lparr>frame_count := Suc (frame_count st) + length fs\<rparr>))"
        by (rule process_sampled_frame_count_irrelevant)
      finally show ?thesis
        using True Inr by (simp cong: sum.case_cong)
    qed
  qed
qed

lemma frame_interval_spec:
  assumes "1 \<le> sample_fps"
  shows "max 1 (py_int native div sample_fps) = spec_frame_interval native sample_fps"
proof (cases "0 \<le> native")
  case True
  then have "py_int native div sample_fps = \<lfloor>native / real_of_int sample_fps\<rfloor>"
    using assms by (simp add: py_int_def floor_divide_real_eq_div)
  then show ?thesis
    by (simp add: spec_frame_interval_def)
next
  case False
  then have "\<lceil>native\<rceil> \<le> 0"
    by (simp add: ceiling_le_iff)
  then have a: "\<lceil>native\<rceil> div sample_fps \<le> 0"
    using assms by (simp add: div_nonpos_pos_le0)
  have "native / real_of_int sample_fps < 0"
    using False assms by (simp add: divide_neg_pos)
  then have b: "\<lfloor>native / real_of_int sample_fps\<rfloor> \<le> 0"
    by (simp add: floor_le_iff)
  show ?thesis
    using False a b by (simp add: py_int_def spec_frame_interval_def)
qed

lemma mod_nat_dvd_int: "0 < K \<Longrightarrow> (i mod nat K = 0) = (K dvd int i)"
proof -
  assume K: "0 < K"
  have "K dvd int i \<longleftrightarrow> int (nat K) dvd int i"
    using K by simp
  also have "\<dots> \<longleftrightarrow> nat K dvd i"
    by (rule int_dvd_int_iff)
  finally show ?thesis
    by (simp add: mod_eq_0_iff_dvd)
qed

lemma spec_sampled_frames_enumerate:
  "spec_sampled_frames native sample_fps fs =
     filter (\<lambda>(i, f). i mod nat (spec_frame_interval native sample_fps) = 0) (List.enumerate 0 fs)"
proof -
  have "0 < spec_frame_interval native sample_fps"
    by (simp add: spec_frame_interval_def)
  then show ?thesis
    by (simp add: spec_sampled_frames_def enumerate_eq_zip mod_nat_dvd_int)
qed

lemma map_fst_filter_zip:
  "length xs = length ys \<Longrightarrow> map fst (filter (\<lambda>(i, f). P i) (zip xs ys)) = filter P xs"
proof -
  assume "length xs = length ys"
  then have "filter P xs = filter P (map fst (zip xs ys))"
    by simp
  also have "\<dots> = map fst (filter (P \<circ> fst) (zip xs ys))"
    by (rule filter_map)
  also have "P \<circ> fst = (\<lambda>(i, f). P i)"
    by auto
  finally show ?thesis by simp
qed

text \<open>
  C3. For every video and every \<open>targetFps \<ge> 1\<close>: the frame interval
  \<^verbatim>\<open>max(1, video_fps // sample_fps)\<close> of \<^verbatim>\<open>process_video\<close> equals
  \<open>max(1, floor(nativeFrameRate / targetFps))\<close>, and (once the video is open and the
  outputs are set up) the run is the per-frame work applied, in increasing order, to
  exactly the frames whose index is a multiple of the interval, the frame counter
  ending at the number of frames read. For 30 frames per second sampled at 1 the indices
  are the multiples of 30; for \<open>targetFps \<ge> nativeFrameRate\<close> the interval is 1 and every
  frame is processed.
\<close>

theorem frame_sampler_refinement:
  assumes target: "1 \<le> sample_fps"
  shows "max 1 (py_int (native_fps video) div sample_fps)
           = max 1 \<lfloor>native_fps video / real_of_int sample_fps\<rfloor>
   \<and> (opened video \<and> makedirs env dir = None \<and> open_csv env csv = None
        \<and> writerow env [] Header = None \<longrightarrow>
      process_video env pl video csv dir sample_fps =
        (case process_sampled env dir (py_int (native_fps video))
                (spec_sampled_frames (native_fps video) sample_fps (frames video)) (start pl) of
           Inl x \<Rightarrow> Inl x
         | Inr s \<Rightarrow> Inr (make_report env csv dir (s\<lparr>frame_count := length (frames video)\<rparr>),
                         s\<lparr>frame_count := length (frames video)\<rparr>)))
   \<and> map fst (spec_sampled_frames (native_fps video) sample_fps (frames video))
        = filter (\<lambda>i. max 1 \<lfloor>native_fps video / real_of_int sample_fps\<rfloor> dvd int i)
            [0..<length (frames video)]
   \<and> (native_fps video = 30 \<and> sample_fps = 1 \<longrightarrow>
        map fst (spec_sampled_frames (native_fps video) sample_fps (frames video))
          = filter (\<lambda>i. 30 dvd i) [0..<length (frames video)])
   \<and> (native_fps video \<le> real_of_int sample_fps \<longrightarrow>
        max 1 (py_int (native_fps video) div sample_fps) = 1
      \<and> map fst (spec_sampled_frames (native_fps video) sample_fps (frames video))
          = [0..<length (frames video)])"
proof -
  let ?n = "native_fps video"
  have interval: "max 1 (py_int ?n div sample_fps) = spec_frame_interval ?n sample_fps"
    using target by (rule frame_interval_spec)
  have pos: "0 < spec_frame_interval ?n sample_fps"
    by (simp add: spec_frame_interval_def)
  have run: "process_video env pl video csv dir sample_fps =
        (case process_sampled env dir (py_int ?n)
                (spec_sampled_frames ?n sample_fps (frames video)) (start pl) of
           Inl x \<Rightarrow> Inl x
         | Inr s \<Rightarrow> Inr (make_report env csv dir (s\<lparr>frame_count := length (frames video)\<rparr>),
                         s\<lparr>frame_count := length (frames video)\<rparr>))"
    if ok: "opened video \<and> makedirs env dir = None \<and> open_csv env csv = None
        \<and> writerow env [] Header = None"
  proof -
    have "read_loop env dir (py_int ?n) (nat (spec_frame_interval ?n sample_fps)) (frames video) (start pl)
        = (case process_sampled env dir (py_int ?n)
                (spec_sampled_frames ?n sample_fps (frames video)) (start pl) of
           Inl x \<Rightarrow> Inl x
         | Inr s \<Rightarrow> Inr (s\<lparr>frame_count := length (frames video)\<rparr>))"
      using pos by (subst read_loop_sampled)
        (simp_all add: spec_sampled_frames_enumerate start_def cong: sum.case_cong)
    then show ?thesis
      using ok target interval
      by (simp add: process_video_def Let_def split: sum.splits)
  qed
  have indices: "map fst (spec_sampled_frames ?n sample_fps (frames video))
        = filter (\<lambda>i. spec_frame_interval ?n sample_fps dvd int i) [0..<length (frames video)]"
    unfolding spec_sampled_frames_def by (rule map_fst_filter_zip) simp
  have thirty: "map fst (spec_sampled_frames ?n sample_fps (frames video))
          = filter (\<lambda>i. 30 dvd i) [0..<length (frames video)]"
    if "?n = 30 \<and> sample_fps = 1"
  proof -
    have "spec_frame_interval ?n sample_fps = 30"
      using that by (simp add: spec_frame_interval_def)
    moreover have "(30 dvd int i) = (30 dvd i)" for i
      using int_dvd_int_iff [of 30 i] by simp
    ultimately show ?thesis
      using indices by simp
  qed
  have every: "max 1 (py_int ?n div sample_fps) = 1
      \<and> map fst (spec_sampled_frames ?n sample_fps (frames video)) = [0..<length (frames video)]"
    if le: "?n \<le> real_of_int sample_fps"
  proof -
    have "?n / real_of_int sample_fps \<le> 1"
      using le target by (simp add: divide_le_eq)
    then have "\<lfloor>?n / real_of_int sample_fps\<rfloor> \<le> 1"
      by (simp add: floor_le_iff)
    then have one: "spec_frame_interval ?n sample_fps = 1"
      by (simp add: spec_frame_interval_def)
    then show ?thesis
      using interval indices by simp
  qed
  show ?thesis
    using interval run indices thirty every
    by (simp add: spec_frame_interval_def)
qed


subsection \<open>Evaluating a run\<close>

lemma decimal_digit: "n < 10 \<Longrightarrow> decimal n = [digit_char n]"
  by (simp add: decimal.simps)

lemma decimal_more: "10 \<le> n \<Longrightarrow> decimal n = decimal (n div 10) @ [digit_char (n mod 10)]"
  by (subst decimal.simps) simp
lemma replicate_numeral: "replicate (numeral k) x = x # replicate (pred_numeral k) x"
  by (simp add: numeral_eq_Suc)

lemma quiet_env_simps:
  "pytesseract_installed (env_ocr quiet_env) = False"
  "frame_shape quiet_env f = (100, 100)"
  "detect quiet_env f = Inr (if f = 0
                 then [[\<lparr>box_xyxy = (10, 20, 50, 80), box_conf = 0.9, box_class_name = ''stop sign''\<rparr>,
                        \<lparr>box_xyxy = (0, 0, 9, 9), box_conf = 0.8, box_class_name = ''car''\<rparr>]]
                 else [[]])"
  "inference_seconds quiet_env f = (if f = 0 then 1 else if f = 1 then 3 else 5)"
  "elapsed_seconds quiet_env = 2"
  "makedirs quiet_env d = None"
  "open_csv quiet_env c = None"
  "writerow quiet_env ls l = None"
  "imwrite quiet_env p q = Inr True"
  by (simp_all add: quiet_env_def)

lemma quiet_gps_0: "extract_gps_from_frame (env_ocr quiet_env) (0::nat) 0 = Inr (43.79, - 79.314, 45)"
  by (simp add: extract_gps_from_frame_def try_ocr_def simulated_gps_def float_mod_def quiet_env_simps)

lemma quiet_patch_0: "extract_roi_patch (frame_shape quiet_env) (0::nat) (10, 20, 50, 80) 256 = Inr
  \<lparr>source = 0, rows = (20, 80), cols = (0, 60), out_height = 256, out_width = 256\<rparr>"
  by (simp add: extract_roi_patch_def crop_window_eq np_slice_def slice_index_def cv2_resize_def quiet_env_simps)

lemma quiet_path_0_0: "os_path_join ''patches'' (patch_filename 0 0) = ''patches/frame_000000_det_0000.jpg''"
  by (simp add: os_path_join_def patch_filename_def zero_pad_def digit_char_def
  decimal_digit decimal_more replicate_numeral)

lemma quiet_frame_0:
  "process_frame quiet_env ''patches'' 3 0 (start (init None)) =
     Inr \<lparr>self = \<lparr>target_classes = [''stop sign'', ''traffic light''],
                 self_total_frames = 0, self_total_detections = 0, inference_times = [1]\<rparr>,
          frame_count = 0, processed_count = 0, detection_count = 1,
          csv_file =
            [Header,
             Detection \<lparr>row_frame_number = 0, row_timestamp_sec = 0, row_u = 30, row_v = 80,
               row_confidence = 0.9, row_class_name = ''stop sign'', row_vehicle_lat = 43.79,
               row_vehicle_lon = - 79.314, row_heading = 45\<rparr>],
          imwrite_calls =
            [(''patches/frame_000000_det_0000.jpg'',
              \<lparr>source = 0, rows = (20, 80), cols = (0, 60), out_height = 256, out_width = 256\<rparr>,
              True)]\<rparr>"
  by (simp add: process_frame_def process_box_def quiet_gps_0 quiet_patch_0 quiet_path_0_0 start_def init_def Let_def quiet_env_simps)

theorem frame_sampler_refinement_witness:
  "map_sum fst (\<lambda>(rep, st). (report_total_frames rep, report_processed_frames rep,
       report_total_detections rep, map fst (imwrite_calls st), csv_file st))
     (process_video quiet_env (init None) \<lparr>opened = True, native_fps = 3, frames = [0, 1, 2]\<rparr>
        ''detections.csv'' ''patches'' 1)
   = Inr (3, 1, 1, [''patches/frame_000000_det_0000.jpg''],
       [Header,
        Detection \<lparr>row_frame_number = 0, row_timestamp_sec = 0, row_u = 30, row_v = 80,
          row_confidence = 0.9, row_class_name = ''stop sign'', row_vehicle_lat = 43.79,
          row_vehicle_lon = - 79.314, row_heading = 45\<rparr>])"
proof -
  let ?video = "\<lparr>opened = True, native_fps = 3, frames = [0, 1, 2 :: nat]\<rparr>"
  have ok: "opened ?video \<and> makedirs quiet_env ''patches'' = None
      \<and> open_csv quiet_env ''detections.csv'' = None \<and> writerow quiet_env [] Header = None"
    by (simp add: quiet_env_simps)
  have sampled: "spec_sampled_frames (native_fps ?video) 1 (frames ?video) = [(0, 0)]"
    by (simp add: spec_sampled_frames_def spec_frame_interval_def)
  have fps: "py_int (native_fps ?video) = 3"
    by (simp add: py_int_def)
  have "process_video quiet_env (init None) ?video ''detections.csv'' ''patches'' 1 =
      (case process_sampled quiet_env ''patches'' (py_int (native_fps ?video))
              (spec_sampled_frames (native_fps ?video) 1 (frames ?video)) (start (init None)) of
         Inl x \<Rightarrow> Inl x
       | Inr s \<Rightarrow> Inr (make_report quiet_env ''detections.csv'' ''patches''
                         (s\<lparr>frame_count := length (frames ?video)\<rparr>),
                       s\<lparr>frame_count := length (frames ?video)\<rparr>))"
    using ok frame_sampler_refinement [of 1 ?video quiet_env "''patches''" "''detections.csv''" "init None"]
    by blast
  moreover have "(start (init None) :: nat run)\<lparr>frame_count := 0\<rparr> = start (init None)"
    by (simp add: start_def)
  ultimately show ?thesis
    unfolding sampled fps by (simp add: quiet_frame_0 make_report_def Let_def quiet_env_simps mean_def)
qed

subsection \<open>Patch file names\<close>

lemma digit_cases:
  "d < (10::nat) \<Longrightarrow>
     d = 0 \<or> d = 1 \<or> d = 2 \<or> d = 3 \<or> d = 4 \<or> d = 5 \<or> d = 6 \<or> d = 7 \<or> d = 8 \<or> d = 9"
  by arith

lemma digit_value_char: "d < 10 \<Longrightarrow> digit_value (digit_char d) = d"
  by (drule digit_cases) (auto simp: digit_value_def digit_char_def)

lemma isdigit_digit_char: "d < 10 \<Longrightarrow> isdigit (digit_char d)"
  by (drule digit_cases) (auto simp: isdigit_def digit_char_def)

lemma nat_of_digits_snoc: "nat_of_digits (s @ [c]) = 10 * nat_of_digits s + digit_value c"
  by (simp add: nat_of_digits_def)

lemma nat_of_digits_decimal: "nat_of_digits (decimal n) = n"
proof (induction n rule: decimal.induct)
  case (1 n)
  show ?case
  proof (cases "n < 10")
    case True
    then show ?thesis
      by (simp add: decimal_digit nat_of_digits_def digit_value_char)
  next
    case False
    then have "nat_of_digits (decimal (n div 10)) = n div 10"
      using "1.IH" by simp
    then show ?thesis
      using False by (simp add: decimal_more nat_of_digits_snoc digit_value_char)
  qed
qed

lemma isdigit_decimal: "list_all isdigit (decimal n)"
proof (induction n rule: decimal.induct)
  case (1 n)
  show ?case
  proof (cases "n < 10")
    case True
    then show ?thesis
      by (simp add: decimal_digit isdigit_digit_char)
  next
    case False
    then have "list_all isdigit (decimal (n div 10))"
      using "1.IH" by simp
    then show ?thesis
      using False by (simp add: decimal_more isdigit_digit_char)
  qed
qed

lemma nat_of_digits_zeros: "nat_of_digits (replicate k CHR ''0'' @ s) = nat_of_digits s"
proof -
  have zero: "digit_value CHR ''0'' = 0"
    by (simp add: digit_value_def)
  have "foldl (\<lambda>n c. 10 * n + digit_value c) 0 (replicate k CHR ''0'') = 0"
    by (induction k) (simp_all add: zero)
  then show ?thesis
    by (simp add: nat_of_digits_def)
qed

lemma nat_of_digits_zero_pad: "nat_of_digits (zero_pad w (decimal n)) = n"
  by (simp add: zero_pad_def nat_of_digits_zeros nat_of_digits_decimal)

lemma isdigit_zero: "isdigit CHR ''0''"
  by (simp add: isdigit_def)

lemma isdigit_zero_pad: "list_all isdigit (zero_pad w (decimal n))"
  using isdigit_decimal [of n] by (auto simp: zero_pad_def list_all_iff isdigit_zero)

lemma digits_then_other:
  assumes "list_all isdigit xs" "list_all isdigit ys" "\<not> isdigit c" "\<not> isdigit d"
    and eq: "xs @ c # r = ys @ d # r'"
  shows "xs = ys \<and> r = r'"
proof -
  have "takeWhile isdigit (xs @ c # r) = xs" "takeWhile isdigit (ys @ d # r') = ys"
    using assms(1-4) by (simp_all add: takeWhile_append2 list_all_iff)
  then have "xs = ys"
    using eq by simp
  then show ?thesis
    using eq by simp
qed

lemma patch_filename_inj:
  assumes "patch_filename a b = patch_filename a' b'"
  shows "a = a' \<and> b = b'"
proof -
  define A A' B B' where "A = zero_pad 6 (decimal a)" and "A' = zero_pad 6 (decimal a')"
    and "B = zero_pad 4 (decimal b)" and "B' = zero_pad 4 (decimal b')"
  have digits: "list_all isdigit A" "list_all isdigit A'" "list_all isdigit B" "list_all isdigit B'"
    unfolding A_def A'_def B_def B'_def by (rule isdigit_zero_pad)+
  have other: "\<not> isdigit CHR ''_''" "\<not> isdigit CHR ''.''"
    by (simp_all add: isdigit_def)
  have "''frame_'' @ A @ ''_det_'' @ B @ ''.jpg'' = ''frame_'' @ A' @ ''_det_'' @ B' @ ''.jpg''"
    using assms unfolding patch_filename_def A_def A'_def B_def B'_def .
  then have "A @ CHR ''_'' # (''det_'' @ B @ ''.jpg'') = A' @ CHR ''_'' # (''det_'' @ B' @ ''.jpg'')"
    by simp
  from digits_then_other [OF digits(1,2) other(1) other(1) this]
  have A: "A = A'" and "''det_'' @ B @ ''.jpg'' = ''det_'' @ B' @ ''.jpg''"
    by simp_all
  then have "B @ CHR ''.'' # ''jpg'' = B' @ CHR ''.'' # ''jpg''"
    by simp
  from digits_then_other [OF digits(3,4) other(2) other(2) this]
  have B: "B = B'"
    by simp
  have "a = nat_of_digits A" "a' = nat_of_digits A'" "b = nat_of_digits B" "b' = nat_of_digits B'"
    unfolding A_def A'_def B_def B'_def by (simp_all add: nat_of_digits_zero_pad)
  then show ?thesis
    using A B by simp
qed

lemma os_path_join_inj: "os_path_join d n = os_path_join d n' \<Longrightarrow> n = n'"
  by (simp add: os_path_join_def split: if_splits)

lemma numbered_paths_snoc:
  "numbered_paths d (fcs @ [fc]) =
     numbered_paths d fcs @ [os_path_join d (patch_filename fc (length fcs))]"
  by (simp add: numbered_paths_def)

lemma distinct_numbered_paths: "distinct (numbered_paths d fcs)"
proof -
  have "distinct (zip [0..<length fcs] fcs)"
    by (rule distinct_zipI1) simp
  moreover have "inj_on (\<lambda>(ordinal, frame_no). os_path_join d (patch_filename frame_no ordinal))
      (set (zip [0..<length fcs] fcs))"
    by (rule inj_onI) (auto dest!: os_path_join_inj patch_filename_inj)
  ultimately show ?thesis
    unfolding numbered_paths_def by (simp add: distinct_map)
qed

subsection \<open>Rows and patch writes of a run\<close>

lemma detection_rows_snoc:
  "detection_rows (ls @ [Detection r]) = detection_rows ls @ [r]"
  by (simp add: detection_rows_def)

lemma paired_start: "paired d (start pl)"
  by (simp add: paired_def start_def detection_rows_def numbered_paths_def)

lemma paired_unopened: "paired d (unopened pl)"
  by (simp add: paired_def unopened_def detection_rows_def numbered_paths_def)

lemma paired_frame_count [simp]:
  "paired d (st\<lparr>frame_count := a\<rparr>) = paired d st"
  "paired d (st\<lparr>processed_count := b\<rparr>) = paired d st"
  "paired d (st\<lparr>self := pl\<rparr>) = paired d st"
  by (simp_all add: paired_def)

lemma process_box_cases:
  assumes "paired d st"
  shows "case process_box env d vfps frame gp box st of
           Inr st' \<Rightarrow> paired d st' \<and> frame_count st' = frame_count st
         | Inl (e, st') \<Rightarrow> (paired d st' \<or> in_flight d st') \<and> frame_count st' = frame_count st"
proof -
  obtain x1 y1 x2 y2 where xy: "box_xyxy box = (x1, y1, x2, y2)"
    by (metis prod_cases4)
  show ?thesis
    using assms
    by (auto simp: process_box_def xy Let_def paired_def in_flight_def detection_rows_snoc
          numbered_paths_snoc
        split: sum.splits option.splits)
qed

lemma process_boxes_cases:
  assumes "paired d st"
  shows "case process_boxes env d vfps frame gp boxes st of
           Inr st' \<Rightarrow> paired d st' \<and> frame_count st' = frame_count st
         | Inl (e, st') \<Rightarrow> (paired d st' \<or> in_flight d st') \<and> frame_count st' = frame_count st"
  using assms
proof (induction boxes arbitrary: st)
  case Nil
  then show ?case by simp
next
  case (Cons box boxes)
  show ?case
  proof (cases "process_box env d vfps frame gp box st")
    case (Inl x)
    then show ?thesis
      using process_box_cases [OF Cons.prems, of env vfps frame gp box] by simp
  next
    case (Inr st1)
    then have "paired d st1" "frame_count st1 = frame_count st"
      using process_box_cases [OF Cons.prems, of env vfps frame gp box] by simp_all
    then show ?thesis
      using Cons.IH [of st1] Inr by (auto split: sum.splits)
  qed
qed

lemma process_results_cases:
  assumes "paired d st"
  shows "case process_results env d vfps frame gp results st of
           Inr st' \<Rightarrow> paired d st' \<and> frame_count st' = frame_count st
         | Inl (e, st') \<Rightarrow> (paired d st' \<or> in_flight d st') \<and> frame_count st' = frame_count st"
  using assms
proof (induction results arbitrary: st)
  case Nil
  then show ?case by simp
next
  case (Cons boxes results)
  show ?case
  proof (cases "process_boxes env d vfps frame gp boxes st")
    case (Inl x)
    then show ?thesis
      using process_boxes_cases [OF Cons.prems, of env vfps frame gp boxes] by simp
  next
    case (Inr st1)
    then have "paired d st1" "frame_count st1 = frame_count st"
      using process_boxes_cases [OF Cons.prems, of env vfps frame gp boxes] by simp_all
    then show ?thesis
      using Cons.IH [of st1] Inr by (auto split: sum.splits)
  qed
qed

lemma process_frame_cases:
  assumes "paired d st"
  shows "case process_frame env d vfps frame st of
           Inr st' \<Rightarrow> paired d st'
         | Inl (e, st') \<Rightarrow> paired d st' \<or> in_flight d st'"
proof (cases "extract_gps_from_frame (env_ocr env) frame (int (frame_count st))")
  case (Inl e)
  then show ?thesis
    using assms by (simp add: process_frame_def)
next
  case (Inr gp)
  show ?thesis
  proof (cases "detect env frame")
    case (Inl e)
    then show ?thesis
      using assms Inr by (simp add: process_frame_def)
  next
    case results: (Inr results)
    let ?st = "st\<lparr>self := (self st)\<lparr>inference_times :=
        inference_times (self st) @ [inference_seconds env frame]\<rparr>\<rparr>"
    have "paired d ?st"
      using assms by simp
    from process_results_cases [OF this, of env vfps frame gp results]
    show ?thesis
      using Inr results by (auto simp: process_frame_def split: sum.splits)
  qed
qed

lemma read_loop_cases:
  assumes "paired d st"
  shows "case read_loop env d vfps k fs st of
           Inr st' \<Rightarrow> paired d st'
         | Inl (e, st') \<Rightarrow> paired d st' \<or> in_flight d st'"
  using assms
proof (induction fs arbitrary: st)
  case Nil
  then show ?case by simp
next
  case (Cons f fs)
  show ?case
  proof (cases "frame_count st mod k = 0")
    case False
    then show ?thesis
      using Cons.IH [of "st\<lparr>frame_count := frame_count st + 1\<rparr>"] Cons.prems by simp
  next
    case True
    show ?thesis
    proof (cases "process_frame env d vfps f st")
      case (Inl x)
      then show ?thesis
        using True process_frame_cases [OF Cons.prems, of env vfps f] by simp
    next
      case (Inr st1)
      then have "paired d st1"
        using process_frame_cases [OF Cons.prems, of env vfps f] by simp
      then have "paired d (st1\<lparr>processed_count := processed_count st1 + 1,
          frame_count := frame_count st1 + 1\<rparr>)"
        by simp
      from Cons.IH [OF this] show ?thesis
        using True Inr by simp
    qed
  qed
qed

lemma process_video_cases:
  "case process_video env pl video csv d sample_fps of
     Inr (rep, st) \<Rightarrow> paired d st \<and> report_total_detections rep = detection_count st
   | Inl (e, st) \<Rightarrow> paired d st \<or> in_flight d st"
proof -
  have loop: "case read_loop env d vfps k (frames video) (start pl) of
           Inr st' \<Rightarrow> paired d st'
         | Inl (e, st') \<Rightarrow> paired d st' \<or> in_flight d st'" for vfps k
    by (rule read_loop_cases) (rule paired_start)
  show ?thesis
    unfolding process_video_def Let_def
    using loop [of "py_int (native_fps video)"
        "nat (max 1 (py_int (native_fps video) div sample_fps))"]
    by (auto simp: paired_unopened make_report_def Let_def split: sum.splits option.splits)
qed

lemma extends_refl [simp]: "extends st st"
  by (simp add: extends_def)


lemma extends_update [simp]:
  "extends st (st'\<lparr>frame_count := a\<rparr>) = extends st st'"
  "extends st (st'\<lparr>processed_count := b\<rparr>) = extends st st'"
  "extends st (st'\<lparr>self := pl\<rparr>) = extends st st'"
  "extends (st\<lparr>frame_count := a\<rparr>) st' = extends st st'"
  "extends (st\<lparr>processed_count := b\<rparr>) st' = extends st st'"
  "extends (st\<lparr>self := pl\<rparr>) st' = extends st st'"
  by (simp_all add: extends_def)








subsection \<open>Two runs evaluated\<close>

lemma full_disk_env_simps:
  "env_ocr full_disk_env = env_ocr quiet_env"
  "frame_shape full_disk_env = frame_shape quiet_env"
  "detect full_disk_env = detect quiet_env"
  "inference_seconds full_disk_env = inference_seconds quiet_env"
  "elapsed_seconds full_disk_env = elapsed_seconds quiet_env"
  "makedirs full_disk_env = makedirs quiet_env"
  "open_csv full_disk_env = open_csv quiet_env"
  "imwrite full_disk_env = imwrite quiet_env"
  "writerow full_disk_env ls l = (if l = Header then None else Some OSError)"
  by (simp_all add: full_disk_env_def)

lemma quiet_frame_other:
  "f \<noteq> 0 \<Longrightarrow> process_frame quiet_env d vfps f st =
     Inr (st\<lparr>self := (self st)\<lparr>inference_times :=
            inference_times (self st) @ [inference_seconds quiet_env f]\<rparr>\<rparr>)"
  by (simp add: process_frame_def extract_gps_from_frame_def try_ocr_def quiet_env_simps(1,2,3))

lemma full_disk_frame_0:
  "process_frame full_disk_env ''patches'' 3 0 (start (init None)) =
     Inl (OSError,
       \<lparr>self = \<lparr>target_classes = [''stop sign'', ''traffic light''],
                 self_total_frames = 0, self_total_detections = 0, inference_times = [1]\<rparr>,
        frame_count = 0, processed_count = 0, detection_count = 0,
        csv_file = [Header],
        imwrite_calls =
          [(''patches/frame_000000_det_0000.jpg'',
            \<lparr>source = 0, rows = (20, 80), cols = (0, 60), out_height = 256, out_width = 256\<rparr>,
            True)]\<rparr>)"
  by (simp add: process_frame_def process_box_def full_disk_env_simps quiet_gps_0 quiet_patch_0
      quiet_path_0_0 start_def init_def Let_def quiet_env_simps)

lemma quiet_run:
  "process_video quiet_env (init None) \<lparr>opened = True, native_fps = 3, frames = [0, 1, 2]\<rparr>
     ''detections.csv'' ''patches'' 1 =
   Inr (\<lparr>report_total_frames = 3, report_processed_frames = 1, report_total_detections = 1,
         report_elapsed_time = 2, report_avg_fps = 1 / 2, report_avg_inference_ms = 1000,
         report_output_csv = ''detections.csv'', report_output_patches_dir = ''patches''\<rparr>,
        \<lparr>self = \<lparr>target_classes = [''stop sign'', ''traffic light''],
                 self_total_frames = 0, self_total_detections = 0, inference_times = [1]\<rparr>,
          frame_count = 3, processed_count = 1, detection_count = 1,
          csv_file =
            [Header,
             Detection \<lparr>row_frame_number = 0, row_timestamp_sec = 0, row_u = 30, row_v = 80,
               row_confidence = 0.9, row_class_name = ''stop sign'', row_vehicle_lat = 43.79,
               row_vehicle_lon = - 79.314, row_heading = 45\<rparr>],
          imwrite_calls =
            [(''patches/frame_000000_det_0000.jpg'',
              \<lparr>source = 0, rows = (20, 80), cols = (0, 60), out_height = 256, out_width = 256\<rparr>,
              True)]\<rparr>)"
proof -
  have fps: "py_int 3 = 3"
    by (simp add: py_int_def)
  have loop: "read_loop quiet_env ''patches'' 3 3 [0, 1, 2] (start (init None)) =
      Inr \<lparr>self = \<lparr>target_classes = [''stop sign'', ''traffic light''],
                 self_total_frames = 0, self_total_detections = 0, inference_times = [1]\<rparr>,
          frame_count = 3, processed_count = 1, detection_count = 1,
          csv_file =
            [Header,
             Detection \<lparr>row_frame_number = 0, row_timestamp_sec = 0, row_u = 30, row_v = 80,
               row_confidence = 0.9, row_class_name = ''stop sign'', row_vehicle_lat = 43.79,
               row_vehicle_lon = - 79.314, row_heading = 45\<rparr>],
          imwrite_calls =
            [(''patches/frame_000000_det_0000.jpg'',
              \<lparr>source = 0, rows = (20, 80), cols = (0, 60), out_height = 256, out_width = 256\<rparr>,
              True)]\<rparr>"
  proof -
    have "frame_count (start (init None) :: nat run) mod 3 = 0"
      by (simp add: start_def)
    then show ?thesis
      by (simp add: quiet_frame_0)
  qed
  have "process_video quiet_env (init None)
      \<lparr>opened = True, native_fps = 3, frames = [0, 1, 2]\<rparr> ''detections.csv'' ''patches'' 1 =
    (case read_loop quiet_env ''patches'' 3 3 [0, 1, 2] (start (init None)) of
       Inl x \<Rightarrow> Inl x
     | Inr st \<Rightarrow> Inr (make_report quiet_env ''detections.csv'' ''patches'' st, st))"
    by (simp add: process_video_def fps Let_def quiet_env_simps del: read_loop.simps)
  then show ?thesis
    unfolding loop by (simp add: make_report_def mean_def Let_def quiet_env_simps)
qed

lemma full_disk_run:
  "process_video full_disk_env (init None) \<lparr>opened = True, native_fps = 3, frames = [0, 1, 2]\<rparr>
     ''detections.csv'' ''patches'' 1 =
   Inl (OSError,
       \<lparr>self = \<lparr>target_classes = [''stop sign'', ''traffic light''],
                 self_total_frames = 0, self_total_detections = 0, inference_times = [1]\<rparr>,
        frame_count = 0, processed_count = 0, detection_count = 0,
        csv_file = [Header],
        imwrite_calls =
          [(''patches/frame_000000_det_0000.jpg'',
            \<lparr>source = 0, rows = (20, 80), cols = (0, 60), out_height = 256, out_width = 256\<rparr>,
            True)]\<rparr>)"
proof -
  have fps: "py_int 3 = 3"
    by (simp add: py_int_def)
  have "frame_count (start (init None) :: nat run) mod 3 = 0"
    by (simp add: start_def)
  then have loop: "read_loop full_disk_env ''patches'' 3 3 [0, 1, 2] (start (init None)) =
      process_frame full_disk_env ''patches'' 3 0 (start (init None))"
    by (simp add: full_disk_frame_0)
  have "process_video full_disk_env (init None)
      \<lparr>opened = True, native_fps = 3, frames = [0, 1, 2]\<rparr> ''detections.csv'' ''patches'' 1 =
    (case read_loop full_disk_env ''patches'' 3 3 [0, 1, 2] (start (init None)) of
       Inl x \<Rightarrow> Inl x
     | Inr st \<Rightarrow> Inr (make_report full_disk_env ''detections.csv'' ''patches'' st, st))"
    by (simp add: process_video_def fps Let_def full_disk_env_simps quiet_env_simps
        del: read_loop.simps)
  then show ?thesis
    by (simp only: loop full_disk_frame_0 sum.case)
qed

lemma quiet_single_frame:
  assumes "f \<noteq> 0"
  shows "process_video quiet_env pl \<lparr>opened = True, native_fps = 1, frames = [f]\<rparr> csv d 1 =
     Inr (make_report quiet_env csv d
            \<lparr>self = pl\<lparr>inference_times := inference_times pl @ [inference_seconds quiet_env f]\<rparr>,
             frame_count = 1, processed_count = 1, detection_count = 0,
             csv_file = [Header], imwrite_calls = []\<rparr>,
          \<lparr>self = pl\<lparr>inference_times := inference_times pl @ [inference_seconds quiet_env f]\<rparr>,
           frame_count = 1, processed_count = 1, detection_count = 0,
           csv_file = [Header], imwrite_calls = []\<rparr>)"
proof -
  have fps: "py_int 1 = 1"
    by (simp add: py_int_def)
  show ?thesis
    using assms
    by (simp add: process_video_def fps quiet_frame_other start_def Let_def quiet_env_simps)
qed

lemma numbered_paths_nth:
  "k < length fcs \<Longrightarrow> numbered_paths d fcs ! k = os_path_join d (patch_filename (fcs ! k) k)"
  by (simp add: numbered_paths_def)

subsection \<open>Detection ordinals\<close>

text \<open>
  C10. In a run of \<^verbatim>\<open>process_video\<close> the ordinal in the patch file names is one counter
  for the whole run: the patch written for the \<open>k\<close>-th record of the run (counting from
  0, over all frames) is named by that record's frame number and by \<open>k\<close>, the number of
  records emitted before it; the report's detection total is the number of records;
  and all patch paths of the run differ, whether the run completes or aborts, because
  \<^verbatim>\<open>frame_{:06d}_det_{:04d}.jpg\<close> determines both of its numbers.
\<close>

theorem patch_ordinals:
  "(\<forall>rep st. process_video env pl video csv d sample_fps = Inr (rep, st) \<longrightarrow>
      map fst (imwrite_calls st)
        = numbered_paths d (map row_frame_number (detection_rows (csv_file st)))
      \<and> report_total_detections rep = length (detection_rows (csv_file st))
      \<and> length (imwrite_calls st) = report_total_detections rep
      \<and> distinct (map fst (imwrite_calls st)))
   \<and> (\<forall>e st. process_video env pl video csv d sample_fps = Inl (e, st) \<longrightarrow>
      (\<exists>frame_numbers. map fst (imwrite_calls st) = numbered_paths d frame_numbers)
      \<and> distinct (map fst (imwrite_calls st)))
   \<and> (\<forall>frame_numbers k. k < length frame_numbers \<longrightarrow>
      numbered_paths d frame_numbers ! k
        = os_path_join d (patch_filename (frame_numbers ! k) k))
   \<and> (\<forall>a b a' b'. patch_filename a b = patch_filename a' b' \<longrightarrow> a = a' \<and> b = b')"
proof -
  note outcome = process_video_cases [where env = env and pl = pl and video = video and csv = csv
      and d = d and sample_fps = sample_fps]
  have completed: "map fst (imwrite_calls st)
        = numbered_paths d (map row_frame_number (detection_rows (csv_file st)))
      \<and> report_total_detections rep = length (detection_rows (csv_file st))
      \<and> length (imwrite_calls st) = report_total_detections rep
      \<and> distinct (map fst (imwrite_calls st))"
    if run: "process_video env pl video csv d sample_fps = Inr (rep, st)" for rep st
  proof -
    have p: "paired d st" and n: "report_total_detections rep = detection_count st"
      using outcome run by simp_all
    have paths: "map fst (imwrite_calls st)
        = numbered_paths d (map row_frame_number (detection_rows (csv_file st)))"
      and count: "detection_count st = length (detection_rows (csv_file st))"
      using p by (simp_all add: paired_def)
    have "length (imwrite_calls st) = length (map fst (imwrite_calls st))"
      by simp
    also have "\<dots> = length (detection_rows (csv_file st))"
      unfolding paths by (simp add: numbered_paths_def)
    finally have len: "length (imwrite_calls st) = length (detection_rows (csv_file st))" .
    have "distinct (map fst (imwrite_calls st))"
      unfolding paths by (rule distinct_numbered_paths)
    then show ?thesis
      using paths count n len by simp
  qed
  have aborted: "(\<exists>frame_numbers. map fst (imwrite_calls st) = numbered_paths d frame_numbers)
      \<and> distinct (map fst (imwrite_calls st))"
    if run: "process_video env pl video csv d sample_fps = Inl (e, st)" for e st
  proof -
    have "paired d st \<or> in_flight d st"
      using outcome run by simp
    then have "\<exists>frame_numbers. map fst (imwrite_calls st) = numbered_paths d frame_numbers"
    proof
      assume "paired d st"
      then show ?thesis
        unfolding paired_def by blast
    next
      assume "in_flight d st"
      then have "map fst (imwrite_calls st)
          = numbered_paths d (map row_frame_number (detection_rows (csv_file st)) @ [frame_count st])"
        by (simp add: in_flight_def numbered_paths_snoc)
      then show ?thesis
        by blast
    qed
    then show ?thesis
      using distinct_numbered_paths [of d] by auto
  qed
  show ?thesis
    using completed aborted numbered_paths_nth patch_filename_inj by blast
qed

theorem patch_ordinals_witness:
  "map fst (imwrite_calls (snd (projr (process_video quiet_env (init None)
       \<lparr>opened = True, native_fps = 3, frames = [0, 1, 2]\<rparr> ''detections.csv'' ''patches'' 1))))
     = numbered_paths ''patches'' [0]
   \<and> numbered_paths ''patches'' [0] = [''patches/frame_000000_det_0000.jpg'']
   \<and> distinct (map fst (imwrite_calls (snd (projr (process_video quiet_env (init None)
       \<lparr>opened = True, native_fps = 3, frames = [0, 1, 2]\<rparr> ''detections.csv'' ''patches'' 1)))))
   \<and> distinct (map fst (imwrite_calls (snd (projl (process_video full_disk_env (init None)
       \<lparr>opened = True, native_fps = 3, frames = [0, 1, 2]\<rparr> ''detections.csv'' ''patches'' 1)))))"
proof -
  note a = patch_ordinals [where env = quiet_env and pl = "init None"
      and video = "\<lparr>opened = True, native_fps = 3, frames = [0, 1, 2]\<rparr>"
      and csv = "''detections.csv''" and d = "''patches''" and sample_fps = 1,
      THEN conjunct1, rule_format, OF quiet_run]
  note b = patch_ordinals [where env = full_disk_env and pl = "init None"
      and video = "\<lparr>opened = True, native_fps = 3, frames = [0, 1, 2]\<rparr>"
      and csv = "''detections.csv''" and d = "''patches''" and sample_fps = 1,
      THEN conjunct2, THEN conjunct1, rule_format, OF full_disk_run]
  have "numbered_paths ''patches'' [0] = [''patches/frame_000000_det_0000.jpg'']"
    by (simp add: numbered_paths_def quiet_path_0_0)
  then show ?thesis
    unfolding quiet_run full_disk_run
    using a b by (simp add: detection_rows_def)
qed

subsection \<open>Aborted runs\<close>




subsection \<open>Statistics across runs\<close>

text \<open>
  C8. The three counters are locals set to 0 at the start of every call, but
  \<^verbatim>\<open>self.inference_times\<close> is only initialised in \<^verbatim>\<open>__init__\<close>: a second run on the same
  pipeline object averages over the inference times of the first run as well. Here the
  first run measures 3 seconds on its one frame, the second 5 seconds; the second run
  reports 4000 ms, and 5000 ms on a fresh pipeline.
\<close>

theorem inference_times_carry_over:
  "map_sum fst (\<lambda>(rep, st). (report_total_frames rep, report_processed_frames rep,
        report_total_detections rep, report_avg_inference_ms rep, inference_times (self st)))
     (process_video quiet_env (init None) \<lparr>opened = True, native_fps = 1, frames = [1]\<rparr>
        ''a.csv'' ''patches'' 1)
     = Inr (1, 1, 0, 3000, [3])
   \<and> map_sum fst (\<lambda>(rep, st). (report_total_frames rep, report_processed_frames rep,
        report_total_detections rep, report_avg_inference_ms rep, inference_times (self st)))
     (process_video quiet_env
        (self (snd (projr (process_video quiet_env (init None)
           \<lparr>opened = True, native_fps = 1, frames = [1]\<rparr> ''a.csv'' ''patches'' 1))))
        \<lparr>opened = True, native_fps = 1, frames = [2]\<rparr> ''b.csv'' ''patches'' 1)
     = Inr (1, 1, 0, 4000, [3, 5])
   \<and> map_sum fst (\<lambda>(rep, st). (report_total_frames rep, report_processed_frames rep,
        report_total_detections rep, report_avg_inference_ms rep, inference_times (self st)))
     (process_video quiet_env (init None) \<lparr>opened = True, native_fps = 1, frames = [2]\<rparr>
        ''b.csv'' ''patches'' 1)
     = Inr (1, 1, 0, 5000, [5])"
proof -
  have one: "(1::nat) \<noteq> 0" and two: "(2::nat) \<noteq> 0"
    by simp_all
  show ?thesis
    unfolding quiet_single_frame [OF one] quiet_single_frame [OF two]
    by (simp add: make_report_def mean_def Let_def quiet_env_simps init_def)
qed

end
